(* ===== verification/Prelude.thy ===== *)
theory Prelude
  imports Main "HOL-Library.AList" "HOL-Library.Sublist" "HOL-Library.List_Lexorder"
begin

text \<open>
  Shared ground of the development: the containers of the Rust standard library as the program
  uses them, and the generic lemmas the components build on.

  A \<open>HashMap\<close> is an association list without repeated keys. Its iteration order, which Rust leaves
  unspecified, is the order of the list; no theorem of the development depends on which order that
  is. A \<open>HashSet\<close> is a list without repetitions. The contract of the map is the locale
  \<open>hash_map\<close>, discharged here for association lists; the components use its facts under the
  qualifier \<open>hm\<close>.
\<close>

named_theorems map_simps \<open>rewrite rules of the container operations\<close>

section \<open>Hash maps\<close>

type_synonym ('k, 'v) hmap = "('k \<times> 'v) list"

abbreviation hm_get :: "('k, 'v) hmap \<Rightarrow> 'k \<Rightarrow> 'v option" where
  "hm_get m k \<equiv> map_of m k"

abbreviation hm_insert :: "'k \<Rightarrow> 'v \<Rightarrow> ('k, 'v) hmap \<Rightarrow> ('k, 'v) hmap" where
  "hm_insert k v m \<equiv> AList.update k v m"

abbreviation hm_remove :: "'k \<Rightarrow> ('k, 'v) hmap \<Rightarrow> ('k, 'v) hmap" where
  "hm_remove k m \<equiv> AList.delete k m"

abbreviation hm_has :: "('k, 'v) hmap \<Rightarrow> 'k \<Rightarrow> bool" where
  "hm_has m k \<equiv> map_of m k \<noteq> None"

abbreviation hm_keys :: "('k, 'v) hmap \<Rightarrow> 'k list" where
  "hm_keys m \<equiv> map fst m"

abbreviation hm_values :: "('k, 'v) hmap \<Rightarrow> 'v list" where
  "hm_values m \<equiv> map snd m"

abbreviation hm_ok :: "('k, 'v) hmap \<Rightarrow> bool" where
  "hm_ok m \<equiv> distinct (map fst m)"

text \<open>\<open>get_mut\<close> followed by an in-place change: nothing happens when the key is absent.\<close>

abbreviation hm_modify :: "'k \<Rightarrow> ('v \<Rightarrow> 'v) \<Rightarrow> ('k, 'v) hmap \<Rightarrow> ('k, 'v) hmap" where
  "hm_modify k f m \<equiv> AList.map_entry k f m"

text \<open>What a client of a map relies on, stated for any implementation of it.\<close>

locale hash_map =
  fixes get :: "'m \<Rightarrow> 'k \<Rightarrow> 'v option"
    and ins :: "'k \<Rightarrow> 'v \<Rightarrow> 'm \<Rightarrow> 'm"
    and del :: "'k \<Rightarrow> 'm \<Rightarrow> 'm"
    and len :: "'m \<Rightarrow> nat"
    and ok :: "'m \<Rightarrow> bool"
  assumes get_ins: "get (ins k v m) = (get m)(k \<mapsto> v)"
    and get_del: "get (del k m) = (get m)(k := None)"
    and ok_ins: "ok m \<Longrightarrow> ok (ins k v m)"
    and ok_del: "ok m \<Longrightarrow> ok (del k m)"
    and len_ins: "ok m \<Longrightarrow> len (ins k v m) = (if get m k = None then Suc (len m) else len m)"
    and len_del: "ok m \<Longrightarrow> len (del k m) = (if get m k = None then len m else len m - 1)"
    and len_pos: "ok m \<Longrightarrow> get m k \<noteq> None \<Longrightarrow> 0 < len m"
begin

lemma get_ins_same: "get (ins k v m) k = Some v"
  by (simp add: get_ins)

lemma get_ins_other: "k' \<noteq> k \<Longrightarrow> get (ins k v m) k' = get m k'"
  by (simp add: get_ins)

lemma get_del_same: "get (del k m) k = None"
  by (simp add: get_del)

lemma get_del_other: "k' \<noteq> k \<Longrightarrow> get (del k m) k' = get m k'"
  by (simp add: get_del)

text \<open>An insertion guarded the way the program guards them never passes its bound.\<close>

lemma bounded_ins:
  assumes "ok m" "len m \<le> n" "len m < n \<or> get m k \<noteq> None"
  shows "len (ins k v m) \<le> n"
  using assms by (auto simp: len_ins)

lemma bounded_del: "ok m \<Longrightarrow> len m \<le> n \<Longrightarrow> len (del k m) \<le> n"
  by (auto simp: len_del)

text \<open>Moving a value from one key to another never makes the map larger.\<close>

lemma len_move:
  assumes "ok m" "get m k \<noteq> None"
  shows "len (ins k' v (del k m)) \<le> len m"
  using len_pos [OF assms] assms by (auto simp: len_ins len_del ok_del get_del)

lemma ok_move: "ok m \<Longrightarrow> ok (ins k' v (del k m))"
  by (intro ok_ins ok_del)

end

lemma length_alist_update:
  "length (AList.update k v m) = (if map_of m k = None then Suc (length m) else length m)"
  by (induction m) auto

lemma length_alist_delete:
  "distinct (map fst m) \<Longrightarrow>
    length (AList.delete k m) = (if map_of m k = None then length m else length m - 1)"
proof (induction m)
  case Nil
  then show ?case by simp
next
  case (Cons p m)
  obtain a b where p: "p = (a, b)" by fastforce
  show ?case
  proof (cases "a = k")
    case True
    with Cons.prems p have "map_of m k = None"
      by (auto simp: map_of_eq_None_iff)
    then have "AList.delete k m = m"
      by (force simp: AList.delete_eq map_of_eq_None_iff filter_id_conv)
    with True p show ?thesis by simp
  next
    case False
    from Cons p have IH: "length (AList.delete k m) = (if map_of m k = None then length m else length m - 1)"
      by simp
    have "map_of m k \<noteq> None \<Longrightarrow> 0 < length m" by (cases m) auto
    with False p IH show ?thesis by auto
  qed
qed

interpretation hm: hash_map map_of AList.update AList.delete length "\<lambda>m. distinct (map fst m)"
proof unfold_locales
  show "map_of (AList.update k v m) = (map_of m)(k \<mapsto> v)" for k v m
    by (rule AList.update_conv')
  show "map_of (AList.delete k m) = (map_of m)(k := None)" for k m
    by (rule AList.delete_conv')
  show "distinct (map fst m) \<Longrightarrow> distinct (map fst (AList.update k v m))" for k v m
    by (rule AList.distinct_update)
  show "distinct (map fst m) \<Longrightarrow> distinct (map fst (AList.delete k m))" for k m
    by (rule AList.distinct_delete)
  show "distinct (map fst m) \<Longrightarrow> length (AList.update k v m)
      = (if map_of m k = None then Suc (length m) else length m)" for k v m
    by (rule length_alist_update)
  show "distinct (map fst m) \<Longrightarrow> length (AList.delete k m)
      = (if map_of m k = None then length m else length m - 1)" for k m
    by (rule length_alist_delete)
  show "distinct (map fst m) \<Longrightarrow> map_of m k \<noteq> None \<Longrightarrow> 0 < length m" for m k
    by (cases m) auto
qed

lemmas [map_simps] = AList.update_conv' AList.delete_conv' AList.distinct_update AList.distinct_delete

lemma map_of_modify [map_simps]:
  "map_of (AList.map_entry k f m) = (map_of m)(k := map_option f (map_of m k))"
  by (induction m) (auto simp: fun_eq_iff)

lemma keys_modify [map_simps]: "map fst (AList.map_entry k f m) = map fst m"
  by (induction m) auto

lemma length_modify [map_simps]: "length (AList.map_entry k f m) = length m"
  by (induction m) auto

lemma modify_absent: "map_of m k = None \<Longrightarrow> AList.map_entry k f m = m"
  by (induction m) (auto split: if_splits)

lemma map_of_map_values: "map_of (map (\<lambda>(k, v). (k, f v)) m) k = map_option f (map_of m k)"
  by (induction m) auto

lemma keys_map_values: "map fst (map (\<lambda>(k, v). (k, f v)) m) = map fst m"
  by (induction m) auto

lemma map_of_filter_key:
  "distinct (map fst m) \<Longrightarrow> map_of (filter P m) k =
     (case map_of m k of None \<Rightarrow> None | Some v \<Rightarrow> if P (k, v) then Some v else None)"
proof (induction m)
  case Nil
  then show ?case by simp
next
  case (Cons p m)
  obtain a b where p: "p = (a, b)" by fastforce
  have "a = k \<Longrightarrow> map_of m k = None"
    using Cons.prems p by (auto simp: map_of_eq_None_iff)
  with Cons p show ?case by (auto split: option.splits)
qed

lemma in_values_iff:
  "distinct (map fst m) \<Longrightarrow> v \<in> set (map snd m) \<longleftrightarrow> (\<exists>k. map_of m k = Some v)"
  by force

text \<open>A predicate on every value of a map, and how the operations keep it.\<close>

definition hm_all :: "('v \<Rightarrow> bool) \<Rightarrow> ('k, 'v) hmap \<Rightarrow> bool" where
  "hm_all P m \<longleftrightarrow> list_all (\<lambda>(k, v). P v) m"

lemma hm_all_Nil [simp]: "hm_all P []"
  by (simp add: hm_all_def)

lemma hm_all_get: "hm_all P m \<Longrightarrow> map_of m k = Some v \<Longrightarrow> P v"
  by (auto simp: hm_all_def list_all_iff dest: map_of_SomeD)

lemma hm_all_insert: "hm_all P m \<Longrightarrow> P v \<Longrightarrow> hm_all P (AList.update k v m)"
  by (induction m) (auto simp: hm_all_def)

lemma hm_all_remove: "hm_all P m \<Longrightarrow> hm_all P (AList.delete k m)"
  by (auto simp: hm_all_def list_all_iff AList.delete_eq)

lemma hm_all_modify: "hm_all P m \<Longrightarrow> (\<And>v. P v \<Longrightarrow> P (f v)) \<Longrightarrow> hm_all P (AList.map_entry k f m)"
  by (induction m) (auto simp: hm_all_def)

lemma hm_all_modify_at:
  "hm_all P m \<Longrightarrow> map_of m k = Some v \<Longrightarrow> P (f v) \<Longrightarrow> hm_all P (AList.map_entry k f m)"
  by (induction m) (auto simp: hm_all_def split: if_splits)

lemma hm_all_map: "hm_all P m \<Longrightarrow> (\<And>v. P v \<Longrightarrow> P (f v)) \<Longrightarrow> hm_all P (map (\<lambda>(k, v). (k, f v)) m)"
  by (auto simp: hm_all_def list_all_iff)

lemma hm_all_filter: "hm_all P m \<Longrightarrow> hm_all P (filter Q m)"
  by (auto simp: hm_all_def list_all_iff)

lemma hm_all_values: "hm_all P m \<longleftrightarrow> (\<forall>v \<in> set (map snd m). P v)"
  by (auto simp: hm_all_def list_all_iff)

lemmas hm_all_intros = hm_all_insert hm_all_remove hm_all_modify hm_all_map hm_all_filter

text \<open>\<open>Iterator::collect\<close> into a map: later pairs replace earlier ones under the same key.\<close>

definition collect_map :: "('k \<times> 'v) list \<Rightarrow> ('k, 'v) hmap" where
  "collect_map ps = foldl (\<lambda>m (k, v). hm_insert k v m) [] ps"

lemma collect_map_gen:
  "distinct (map fst m) \<Longrightarrow> hm_all P m \<Longrightarrow> list_all (\<lambda>(k, v). P v) ps \<Longrightarrow>
    distinct (map fst (foldl (\<lambda>m (k, v). hm_insert k v m) m ps))
    \<and> length (foldl (\<lambda>m (k, v). hm_insert k v m) m ps) \<le> length m + length ps
    \<and> hm_all P (foldl (\<lambda>m (k, v). hm_insert k v m) m ps)"
proof (induction ps arbitrary: m)
  case (Cons p ps)
  obtain k v where p: "p = (k, v)" by fastforce
  have "distinct (map fst (AList.update k v m))" "hm_all P (AList.update k v m)"
    using Cons.prems p by (auto simp: AList.distinct_update hm_all_insert)
  moreover have "length (AList.update k v m) \<le> Suc (length m)"
    by (simp add: length_alist_update)
  moreover have "list_all (\<lambda>(k, v). P v) ps" using Cons.prems by simp
  ultimately show ?case using Cons.IH [of "AList.update k v m"] p by fastforce
qed simp

lemma collect_map_ok: "distinct (map fst (collect_map ps))"
  using collect_map_gen [of "[]" "\<lambda>_. True" ps] by (simp add: collect_map_def list_all_iff)

lemma collect_map_length: "length (collect_map ps) \<le> length ps"
  using collect_map_gen [of "[]" "\<lambda>_. True" ps] by (simp add: collect_map_def list_all_iff)

lemma collect_map_all: "(\<And>k v. (k, v) \<in> set ps \<Longrightarrow> P v) \<Longrightarrow> hm_all P (collect_map ps)"
  using collect_map_gen [of "[]" P ps] by (auto simp: collect_map_def list_all_iff)

text \<open>A predicate on every key of a map.\<close>

definition hm_keys_all :: "('k \<Rightarrow> bool) \<Rightarrow> ('k, 'v) hmap \<Rightarrow> bool" where
  "hm_keys_all P m \<longleftrightarrow> (\<forall>k \<in> set (map fst m). P k)"

lemma hm_keys_all_Nil [simp]: "hm_keys_all P []"
  by (simp add: hm_keys_all_def)

lemma set_keys_update: "set (map fst (AList.update k v m)) = insert k (set (map fst m))"
  by (induction m) auto

lemma set_keys_delete: "set (map fst (AList.delete k m)) = set (map fst m) - {k}"
  by (auto simp: AList.delete_eq)

lemma hm_keys_all_insert: "hm_keys_all P m \<Longrightarrow> P k \<Longrightarrow> hm_keys_all P (AList.update k v m)"
  unfolding hm_keys_all_def set_keys_update by simp

lemma hm_keys_all_remove: "hm_keys_all P m \<Longrightarrow> hm_keys_all P (AList.delete k m)"
  unfolding hm_keys_all_def set_keys_delete by blast

lemma hm_keys_all_modify: "hm_keys_all P (AList.map_entry k f m) = hm_keys_all P m"
  unfolding hm_keys_all_def keys_modify by simp

lemma hm_keys_all_map: "hm_keys_all P (map (\<lambda>(k, v). (k, f v)) m) = hm_keys_all P m"
  unfolding hm_keys_all_def keys_map_values by simp

lemma hm_keys_all_collect:
  assumes "\<And>k v. (k, v) \<in> set ps \<Longrightarrow> P k"
  shows "hm_keys_all P (collect_map ps)"
proof -
  have "hm_keys_all P m \<Longrightarrow> \<forall>(k, v) \<in> set ps. P k \<Longrightarrow>
      hm_keys_all P (foldl (\<lambda>m (k, v). hm_insert k v m) m ps)" for m
  proof (induction ps arbitrary: m)
    case (Cons p ps)
    then show ?case by (cases p) (auto intro!: hm_keys_all_insert)
  qed simp
  from this [of "[]"] assms show ?thesis by (auto simp: collect_map_def)
qed

section \<open>Hash sets\<close>

definition hs_insert :: "'a \<Rightarrow> 'a list \<Rightarrow> 'a list" where
  "hs_insert x s = (if x \<in> set s then s else s @ [x])"

abbreviation hs_remove :: "'a \<Rightarrow> 'a list \<Rightarrow> 'a list" where
  "hs_remove x s \<equiv> removeAll x s"

lemma set_hs_insert [simp]: "set (hs_insert x s) = insert x (set s)"
  by (auto simp: hs_insert_def)

lemma distinct_hs_insert [simp]: "distinct (hs_insert x s) = distinct s"
  by (auto simp: hs_insert_def)

lemma hs_insert_not_empty [simp]: "hs_insert x s \<noteq> []"
  by (auto simp: hs_insert_def)

section \<open>Lists\<close>

lemma sum_list_map_le_length:
  fixes f :: "'a \<Rightarrow> nat"
  shows "(\<And>x. x \<in> set xs \<Longrightarrow> f x \<le> c) \<Longrightarrow> sum_list (map f xs) \<le> c * length xs"
  by (induction xs) (auto simp: add.commute add_mono)

lemma length_le_sum_list:
  fixes f :: "'a \<Rightarrow> nat"
  shows "(\<And>x. x \<in> set xs \<Longrightarrow> 1 \<le> f x) \<Longrightarrow> length xs \<le> sum_list (map f xs)"
proof (induction xs)
  case (Cons a xs)
  then have "1 \<le> f a" and "length xs \<le> sum_list (map f xs)" by auto
  then show ?case by simp
qed simp

lemma set_takeWhile_subset: "set (takeWhile P xs) \<subseteq> set xs"
  using set_takeWhileD by fastforce

lemma dropWhile_set_subset: "set (dropWhile P xs) \<subseteq> set xs"
  using set_dropWhileD by fastforce

section \<open>State machines with a history\<close>

text \<open>
  A component that is fed one input after another and answers each with a list of outputs. The runs
  are the same for every such component; the contract \<open>history_machine\<close> is an invariant that relates
  the state to everything that was put out so far.
\<close>

primrec drive :: "('s \<Rightarrow> 'i \<Rightarrow> 's \<times> 'o list) \<Rightarrow> 's \<Rightarrow> 'i list \<Rightarrow> 's \<times> 'o list" where
  "drive step s [] = (s, [])"
| "drive step s (i # is) =
     (let (s1, o1) = step s i; (s2, o2) = drive step s1 is in (s2, o1 @ o2))"

lemma drive_append:
  "drive step s (is @ js) =
     (let (s1, o1) = drive step s is; (s2, o2) = drive step s1 js in (s2, o1 @ o2))"
  by (induction "is" arbitrary: s) (auto split: prod.splits)

locale history_machine =
  fixes step :: "'s \<Rightarrow> 'i \<Rightarrow> 's \<times> 'o list"
    and good :: "'s \<Rightarrow> 'o list \<Rightarrow> bool"
  assumes step_good: "good s h \<Longrightarrow> step s i = (s', os) \<Longrightarrow> good s' (h @ os)"
begin

lemma drive_good: "good s h \<Longrightarrow> drive step s is = (s', os) \<Longrightarrow> good s' (h @ os)"
proof (induction "is" arbitrary: s h os)
  case (Cons i "is")
  obtain s1 o1 where 1: "step s i = (s1, o1)" by force
  obtain s2 o2 where 2: "drive step s1 is = (s2, o2)" by force
  from Cons.prems(2) 1 2 have "drive step s1 is = (s', o2)" "os = o1 @ o2" by simp_all
  with Cons.IH [OF step_good [OF Cons.prems(1) 1]] show ?case by simp
qed simp

end

end
