(* ===== verification/Rust_Str.thy ===== *)
theory Rust_Str
  imports Prelude
begin

text \<open>
  The part of Rust's \<open>str\<close>, \<open>char\<close> and integer parsing that the program calls. A \<open>char\<close> is a Unicode
  scalar value, so it is a natural number here and a \<open>String\<close> is a list of them; \<open>blen\<close> is
  \<open>str::len\<close>, the number of bytes of the UTF-8 encoding. Rust orders strings by their UTF-8 bytes,
  which is the lexicographic order on scalar values that \<open>HOL-Library.List_Lexorder\<close> gives to lists.
  The two character classes whose tables are part of the Unicode database and far too large to write
  out, \<open>char::is_alphanumeric\<close> and \<open>char::to_lowercase\<close>, are arguments of the functions that call them.
\<close>

named_theorems str_simps \<open>evaluation of the string functions\<close>

section \<open>Characters and literals\<close>

type_synonym uchar = nat
type_synonym ustring = "uchar list"

abbreviation ch :: "char \<Rightarrow> uchar" where
  "ch c \<equiv> of_char c"

text \<open>A string literal of the source that is plain ASCII.\<close>

definition U :: "string \<Rightarrow> ustring" where
  "U s = map of_char s"

lemma U_Nil [simp]: "U [] = []"
  by (simp add: U_def)

lemma U_Cons [simp]: "U (c # s) = of_char c # U s"
  by (simp add: U_def)

lemma U_append: "U (s @ t) = U s @ U t"
  by (simp add: U_def)

definition is_whitespace :: "uchar \<Rightarrow> bool" where
  "is_whitespace c \<longleftrightarrow> 9 \<le> c \<and> c \<le> 13 \<or> c = 32 \<or> c = 0x85 \<or> c = 0xA0 \<or> c = 0x1680
     \<or> 0x2000 \<le> c \<and> c \<le> 0x200A \<or> c = 0x2028 \<or> c = 0x2029 \<or> c = 0x202F \<or> c = 0x205F \<or> c = 0x3000"

definition is_ascii_whitespace :: "uchar \<Rightarrow> bool" where
  "is_ascii_whitespace c \<longleftrightarrow> c = 9 \<or> c = 10 \<or> c = 12 \<or> c = 13 \<or> c = 32"

definition is_control :: "uchar \<Rightarrow> bool" where
  "is_control c \<longleftrightarrow> c < 0x20 \<or> 0x7F \<le> c \<and> c \<le> 0x9F"

definition is_ascii_digit :: "uchar \<Rightarrow> bool" where
  "is_ascii_digit c \<longleftrightarrow> 48 \<le> c \<and> c \<le> 57"

definition is_ascii_hexdigit :: "uchar \<Rightarrow> bool" where
  "is_ascii_hexdigit c \<longleftrightarrow> 48 \<le> c \<and> c \<le> 57 \<or> 65 \<le> c \<and> c \<le> 70 \<or> 97 \<le> c \<and> c \<le> 102"

definition ascii_lower :: "uchar \<Rightarrow> uchar" where
  "ascii_lower c = (if 65 \<le> c \<and> c \<le> 90 then c + 32 else c)"

definition ascii_upper :: "uchar \<Rightarrow> uchar" where
  "ascii_upper c = (if 97 \<le> c \<and> c \<le> 122 then c - 32 else c)"

definition to_ascii_lowercase :: "ustring \<Rightarrow> ustring" where
  "to_ascii_lowercase s = map ascii_lower s"

definition to_ascii_uppercase :: "ustring \<Rightarrow> ustring" where
  "to_ascii_uppercase s = map ascii_upper s"

definition eq_ignore_ascii_case :: "ustring \<Rightarrow> ustring \<Rightarrow> bool" where
  "eq_ignore_ascii_case a b \<longleftrightarrow> map ascii_lower a = map ascii_lower b"

lemma ascii_lower_idem [simp]: "ascii_lower (ascii_lower c) = ascii_lower c"
  by (simp add: ascii_lower_def)

lemma to_ascii_lowercase_idem [simp]:
  "to_ascii_lowercase (to_ascii_lowercase s) = to_ascii_lowercase s"
  by (simp add: to_ascii_lowercase_def)

lemma length_to_ascii_lowercase [simp]: "length (to_ascii_lowercase s) = length s"
  by (simp add: to_ascii_lowercase_def)

lemma eq_ignore_ascii_case_refl [simp]: "eq_ignore_ascii_case a a"
  by (simp add: eq_ignore_ascii_case_def)

section \<open>Byte lengths and character boundaries\<close>

definition utf8_len :: "uchar \<Rightarrow> nat" where
  "utf8_len c = (if c < 0x80 then 1 else if c < 0x800 then 2 else if c < 0x10000 then 3 else 4)"

definition blen :: "ustring \<Rightarrow> nat" where
  "blen s = sum_list (map utf8_len s)"

lemma utf8_len_pos [simp]: "0 < utf8_len c"
  by (simp add: utf8_len_def)

lemma utf8_len_le_4: "utf8_len c \<le> 4"
  by (simp add: utf8_len_def)

lemma blen_Nil [simp]: "blen [] = 0"
  by (simp add: blen_def)

lemma blen_Cons [simp]: "blen (c # s) = utf8_len c + blen s"
  by (simp add: blen_def)

lemma blen_append [simp]: "blen (s @ t) = blen s + blen t"
  by (simp add: blen_def)

lemma length_le_blen: "length s \<le> blen s"
  unfolding blen_def by (rule length_le_sum_list) (simp add: Suc_le_eq)

lemma blen_le: "blen s \<le> 4 * length s"
  unfolding blen_def by (rule sum_list_map_le_length) (rule utf8_len_le_4)

lemma blen_ascii: "(\<And>c. c \<in> set s \<Longrightarrow> c < 128) \<Longrightarrow> blen s = length s"
  by (induction s) (auto simp: utf8_len_def)

lemma utf8_len_ascii_lower [simp]: "utf8_len (ascii_lower c) = utf8_len c"
  by (simp add: ascii_lower_def utf8_len_def)

lemma blen_to_ascii_lowercase [simp]: "blen (to_ascii_lowercase s) = blen s"
  by (induction s) (simp_all add: to_ascii_lowercase_def)

text \<open>\<open>str::as_bytes\<close>: the UTF-8 encoding of a scalar value and of a string.\<close>

definition utf8_char :: "uchar \<Rightarrow> nat list" where
  "utf8_char c =
     (if c < 0x80 then [c]
      else if c < 0x800 then [0xC0 + c div 64, 0x80 + c mod 64]
      else if c < 0x10000 then [0xE0 + c div 4096, 0x80 + c div 64 mod 64, 0x80 + c mod 64]
      else [0xF0 + c div 262144, 0x80 + c div 4096 mod 64, 0x80 + c div 64 mod 64, 0x80 + c mod 64])"

definition as_bytes :: "ustring \<Rightarrow> nat list" where
  "as_bytes s = concat (map utf8_char s)"

lemma length_utf8_char: "length (utf8_char c) = utf8_len c"
  by (simp add: utf8_char_def utf8_len_def)

lemma length_as_bytes: "length (as_bytes s) = blen s"
  by (induction s) (simp_all add: as_bytes_def length_utf8_char)

text \<open>
  \<open>is_char_boundary\<close> and the slice \<open>&s[..end]\<close>. The slice panics off a boundary, so it is an
  \<open>option\<close>.
\<close>

fun slice_to :: "ustring \<Rightarrow> nat \<Rightarrow> ustring option" where
  "slice_to s 0 = Some []"
| "slice_to [] (Suc n) = None"
| "slice_to (c # s) (Suc n) =
     (if utf8_len c \<le> Suc n then map_option ((#) c) (slice_to s (Suc n - utf8_len c)) else None)"

definition is_char_boundary :: "ustring \<Rightarrow> nat \<Rightarrow> bool" where
  "is_char_boundary s n \<longleftrightarrow> slice_to s n \<noteq> None"

lemma slice_to_Some: "slice_to s n = Some t \<Longrightarrow> blen t = n \<and> prefix t s"
proof (induction s n arbitrary: t rule: slice_to.induct)
  case (3 c s n)
  then show ?case by (auto split: if_splits)
qed auto

lemma slice_to_prefix: "slice_to (t @ u) (blen t) = Some t"
proof (induction t)
  case Nil
  then show ?case by (cases u) auto
next
  case (Cons c t)
  obtain k where k: "utf8_len c + blen t = Suc k"
    using utf8_len_pos [of c] by (metis add_is_0 gr0_conv_Suc neq0_conv)
  then have "Suc k - utf8_len c = blen t" by simp
  with Cons k show ?case by simp
qed

lemma is_char_boundary_0 [simp]: "is_char_boundary s 0"
  by (cases s) (simp_all add: is_char_boundary_def)

section \<open>Searching, splitting and trimming\<close>

text \<open>\<open>str::split\<close> on a character or a set of characters: always at least one piece.\<close>

fun split_on :: "(uchar \<Rightarrow> bool) \<Rightarrow> ustring \<Rightarrow> ustring list" where
  "split_on p [] = [[]]"
| "split_on p (c # cs) =
     (if p c then [] # split_on p cs
      else (case split_on p cs of [] \<Rightarrow> [[c]] | w # ws \<Rightarrow> (c # w) # ws))"

definition split_whitespace :: "ustring \<Rightarrow> ustring list" where
  "split_whitespace s = filter (\<lambda>w. w \<noteq> []) (split_on is_whitespace s)"

definition split_ascii_whitespace :: "ustring \<Rightarrow> ustring list" where
  "split_ascii_whitespace s = filter (\<lambda>w. w \<noteq> []) (split_on is_ascii_whitespace s)"

text \<open>\<open>str::split_once\<close>: the text before and after the first occurrence of the pattern.\<close>

fun split_once :: "ustring \<Rightarrow> ustring \<Rightarrow> (ustring \<times> ustring) option" where
  "split_once pat [] = (if pat = [] then Some ([], []) else None)"
| "split_once pat (c # cs) =
     (if prefix pat (c # cs) then Some ([], drop (length pat) (c # cs))
      else map_option (\<lambda>(a, b). (c # a, b)) (split_once pat cs))"

definition strip_prefix :: "ustring \<Rightarrow> ustring \<Rightarrow> ustring option" where
  "strip_prefix p s = (if prefix p s then Some (drop (length p) s) else None)"

definition starts_with :: "ustring \<Rightarrow> ustring \<Rightarrow> bool" where
  "starts_with p s \<longleftrightarrow> prefix p s"

definition ends_with :: "ustring \<Rightarrow> ustring \<Rightarrow> bool" where
  "ends_with p s \<longleftrightarrow> suffix p s"

definition trim_start_matches :: "(uchar \<Rightarrow> bool) \<Rightarrow> ustring \<Rightarrow> ustring" where
  "trim_start_matches p s = dropWhile p s"

definition trim_end_matches :: "(uchar \<Rightarrow> bool) \<Rightarrow> ustring \<Rightarrow> ustring" where
  "trim_end_matches p s = rev (dropWhile p (rev s))"

definition trim_start :: "ustring \<Rightarrow> ustring" where
  "trim_start s = trim_start_matches is_whitespace s"

definition trim_end :: "ustring \<Rightarrow> ustring" where
  "trim_end s = trim_end_matches is_whitespace s"

definition trim :: "ustring \<Rightarrow> ustring" where
  "trim s = trim_end (trim_start s)"

text \<open>\<open>[S]::join\<close>.\<close>

fun join :: "ustring \<Rightarrow> ustring list \<Rightarrow> ustring" where
  "join sep [] = []"
| "join sep [w] = w"
| "join sep (w # v # ws) = w @ sep @ join sep (v # ws)"

lemma split_on_nonempty [simp]: "split_on p s \<noteq> []"
  by (induction s) (auto split: list.splits)

lemma split_on_pieces: "w \<in> set (split_on p s) \<Longrightarrow> c \<in> set w \<Longrightarrow> \<not> p c \<and> c \<in> set s"
proof (induction s arbitrary: w)
  case Nil
  then show ?case by simp
next
  case (Cons d s)
  obtain v vs where v: "split_on p s = v # vs"
    by (cases "split_on p s") auto
  from v Cons.IH have IH: "u = v \<or> u \<in> set vs \<Longrightarrow> c \<in> set u \<Longrightarrow> \<not> p c \<and> c \<in> set s" for u
    by auto
  show ?case
  proof (cases "p d")
    case True
    with v Cons.prems IH show ?thesis by auto
  next
    case False
    with v Cons.prems have "w = d # v \<or> w \<in> set vs" by simp
    with False Cons.prems(2) IH [of v] IH [of w] show ?thesis by auto
  qed
qed

lemma split_on_none: "(\<And>c. c \<in> set s \<Longrightarrow> \<not> p c) \<Longrightarrow> split_on p s = [s]"
  by (induction s) auto

lemma split_on_append:
  "p c \<Longrightarrow> split_on p (s @ c # t) = split_on p s @ split_on p t"
proof (induction s)
  case (Cons d s)
  obtain v vs where "split_on p s = v # vs"
    by (cases "split_on p s") auto
  with Cons show ?case by auto
qed simp

lemma split_whitespace_pieces:
  "w \<in> set (split_whitespace s) \<Longrightarrow> w \<noteq> [] \<and> (\<forall>c \<in> set w. \<not> is_whitespace c \<and> c \<in> set s)"
  by (auto simp: split_whitespace_def dest: split_on_pieces)

lemma split_once_eq:
  "split_once pat s = Some (a, b) \<Longrightarrow> s = a @ pat @ b"
proof (induction s arbitrary: a)
  case Nil
  then show ?case by (auto split: if_splits)
next
  case (Cons c s)
  show ?case
  proof (cases "prefix pat (c # s)")
    case True
    then obtain r where r: "c # s = pat @ r" by (auto simp: prefix_def)
    from True Cons.prems have "a = []" "b = drop (length pat) (c # s)" by auto
    with r show ?thesis by simp
  next
    case False
    with Cons show ?thesis by auto
  qed
qed

text \<open>A one-character separator that does not occur in the left part is found where it stands.\<close>

lemma split_once_char:
  "d \<notin> set a \<Longrightarrow> split_once [d] (a @ d # b) = Some (a, b)"
  by (induction a) auto

lemma split_once_char_None: "split_once [d] s = None \<longleftrightarrow> d \<notin> set s"
  by (induction s) auto

lemma split_once_char_Some:
  "split_once [d] s = Some (a, b) \<longleftrightarrow> s = a @ d # b \<and> d \<notin> set a"
proof
  assume "split_once [d] s = Some (a, b)"
  then show "s = a @ d # b \<and> d \<notin> set a"
    by (induction s arbitrary: a) (auto split: if_splits)
qed (auto simp: split_once_char)

lemma split_once_head_notin:
  "(\<And>c. c \<in> set a \<Longrightarrow> c \<noteq> hd pat) \<Longrightarrow> pat \<noteq> [] \<Longrightarrow> split_once pat (a @ pat @ b) = Some (a, b)"
proof (induction a)
  case Nil
  then show ?case by (cases pat) auto
next
  case (Cons c a)
  then have "\<not> prefix pat ((c # a) @ pat @ b)"
    by (cases pat) auto
  with Cons show ?case by simp
qed

lemma strip_prefix_Some: "strip_prefix p s = Some r \<longleftrightarrow> s = p @ r"
  by (auto simp: strip_prefix_def prefix_def)

lemma trim_end_matches_prefix: "prefix (trim_end_matches p s) s"
proof -
  have "rev s = takeWhile p (rev s) @ dropWhile p (rev s)" by simp
  then have "s = rev (dropWhile p (rev s)) @ rev (takeWhile p (rev s))"
    by (metis rev_append rev_rev_ident)
  then show ?thesis unfolding trim_end_matches_def prefix_def by blast
qed

lemma trim_end_matches_set: "set (trim_end_matches p s) \<subseteq> set s"
  by (rule set_mono_prefix [OF trim_end_matches_prefix])

lemma blen_prefix: "prefix a b \<Longrightarrow> blen a \<le> blen b"
  by (auto simp: prefix_def)

lemma trim_end_matches_blen: "blen (trim_end_matches p s) \<le> blen s"
  by (rule blen_prefix [OF trim_end_matches_prefix])

lemma trim_end_matches_last:
  "trim_end_matches p s \<noteq> [] \<Longrightarrow> \<not> p (last (trim_end_matches p s))"
  using hd_dropWhile [of p "rev s"] by (simp add: trim_end_matches_def last_rev)

lemma trim_end_matches_id: "s = [] \<or> \<not> p (last s) \<Longrightarrow> trim_end_matches p s = s"
  by (cases s rule: rev_cases) (auto simp: trim_end_matches_def)

lemma trim_end_matches_all: "(\<And>c. c \<in> set s \<Longrightarrow> p c) \<Longrightarrow> trim_end_matches p s = []"
  by (simp add: trim_end_matches_def dropWhile_eq_Nil_conv)

lemma trim_set: "set (trim s) \<subseteq> set s"
  unfolding trim_def trim_end_def trim_start_def trim_start_matches_def
  by (rule subset_trans [OF trim_end_matches_set dropWhile_set_subset])

section \<open>Unsigned integers\<close>

text \<open>
  \<open>str::parse\<close> for an unsigned type with greatest value \<open>bound\<close>: an optional plus sign, at least one
  ASCII digit, nothing else, and an error on overflow.
\<close>

fun digits_val :: "nat \<Rightarrow> ustring \<Rightarrow> nat option" where
  "digits_val acc [] = Some acc"
| "digits_val acc (c # cs) =
     (if is_ascii_digit c then digits_val (10 * acc + (c - 48)) cs else None)"

definition parse_uint :: "nat \<Rightarrow> ustring \<Rightarrow> nat option" where
  "parse_uint bound s =
     (let body = (case s of c # cs \<Rightarrow> if c = ch (CHR ''+'') then cs else s | [] \<Rightarrow> [])
      in if body = [] then None
         else (case digits_val 0 body of
             Some n \<Rightarrow> if n \<le> bound then Some n else None
           | None \<Rightarrow> None))"

abbreviation parse_u16 :: "ustring \<Rightarrow> nat option" where
  "parse_u16 \<equiv> parse_uint 65535"

abbreviation parse_u32 :: "ustring \<Rightarrow> nat option" where
  "parse_u32 \<equiv> parse_uint 4294967295"

abbreviation parse_u64 :: "ustring \<Rightarrow> nat option" where
  "parse_u64 \<equiv> parse_uint 18446744073709551615"

lemma parse_uint_le: "parse_uint bound s = Some n \<Longrightarrow> n \<le> bound"
  by (auto simp: parse_uint_def Let_def split: list.splits if_splits option.splits)

text \<open>Decimal output, \<open>ToString\<close> for an unsigned integer.\<close>

fun show_nat :: "nat \<Rightarrow> ustring" where
  "show_nat n = (if n < 10 then [48 + n] else show_nat (n div 10) @ [48 + n mod 10])"

declare show_nat.simps [simp del]

lemma digits_val_append:
  "digits_val acc (s @ t) = (case digits_val acc s of None \<Rightarrow> None | Some a \<Rightarrow> digits_val a t)"
  by (induction s arbitrary: acc) auto

lemma show_nat_digits: "c \<in> set (show_nat n) \<Longrightarrow> is_ascii_digit c"
proof (induction n rule: show_nat.induct)
  case (1 n)
  show ?case
  proof (cases "n < 10")
    case True
    with 1 show ?thesis by (simp add: show_nat.simps [of n] is_ascii_digit_def)
  next
    case False
    then have "c \<in> set (show_nat (n div 10)) \<or> c = 48 + n mod 10"
      using 1(2) by (auto simp: show_nat.simps [of n])
    then show ?thesis
    proof
      assume "c = 48 + n mod 10"
      moreover have "n mod 10 \<le> 9" using mod_less_divisor [of 10 n] by simp
      ultimately show ?thesis by (simp add: is_ascii_digit_def)
    qed (use 1 False in blast)
  qed
qed

lemma show_nat_nonempty [simp]: "show_nat n \<noteq> []"
  by (subst show_nat.simps) simp

lemma digits_val_show_nat: "digits_val 0 (show_nat n) = Some n"
proof (induction n rule: show_nat.induct)
  case (1 n)
  show ?case
  proof (cases "n < 10")
    case True
    then show ?thesis by (simp add: show_nat.simps [of n] is_ascii_digit_def)
  next
    case False
    have "n mod 10 \<le> 9" using mod_less_divisor [of 10 n] by simp
    with False 1 show ?thesis
      by (simp add: show_nat.simps [of n] digits_val_append is_ascii_digit_def)
  qed
qed

lemma parse_show_nat: "n \<le> bound \<Longrightarrow> parse_uint bound (show_nat n) = Some n"
proof -
  assume n: "n \<le> bound"
  obtain c cs where s: "show_nat n = c # cs" by (cases "show_nat n") auto
  then have "is_ascii_digit c" using show_nat_digits [of c n] by simp
  then have "c \<noteq> 43" by (simp add: is_ascii_digit_def)
  with s n show ?thesis
    using digits_val_show_nat [of n] by (simp add: parse_uint_def)
qed

end
