(* ===== verification/Format.thy ===== *)
theory Format
  imports Rust_Str
begin

text \<open>
  Model of \<^verbatim>\<open>core/ddirc-core/src/text/format.rs\<close>: the parser of mIRC formatting codes and the encoder
  that writes spans back as codes. The lemmas show that no control character survives parsing, that
  what the parser produces is always well formed, and that encoding well formed spans and parsing
  them again gives the spans back, so the message store loses nothing.
\<close>

section \<open>Data\<close>

record span_style =
  bold :: bool
  italic :: bool
  underline :: bool
  strikethrough :: bool
  monospace :: bool
  inverse :: bool
  fg :: "nat option"
  bg :: "nat option"

definition default_style :: span_style where
  "default_style = \<lparr>bold = False, italic = False, underline = False, strikethrough = False,
     monospace = False, inverse = False, fg = None, bg = None\<rparr>"

record text_span =
  text_of :: ustring
  style_of :: span_style

definition BOLD :: uchar where "BOLD = 0x02"
definition COLOR :: uchar where "COLOR = 0x03"
definition HEX_COLOR :: uchar where "HEX_COLOR = 0x04"
definition RESET :: uchar where "RESET = 0x0F"
definition MONOSPACE :: uchar where "MONOSPACE = 0x11"
definition INVERSE :: uchar where "INVERSE = 0x16"
definition ITALIC :: uchar where "ITALIC = 0x1D"
definition STRIKETHROUGH :: uchar where "STRIKETHROUGH = 0x1E"
definition UNDERLINE :: uchar where "UNDERLINE = 0x1F"

lemmas code_defs = BOLD_def COLOR_def HEX_COLOR_def RESET_def MONOSPACE_def INVERSE_def
  ITALIC_def STRIKETHROUGH_def UNDERLINE_def

section \<open>Operations\<close>

definition is_forbidden :: "uchar \<Rightarrow> bool" where
  "is_forbidden c \<longleftrightarrow> c < 0x20 \<or> c = 0x7F"

text \<open>The span list and the buffer are the two mutable arguments; the buffer is always left empty.\<close>

definition flush :: "text_span list \<Rightarrow> ustring \<Rightarrow> span_style \<Rightarrow> text_span list" where
  "flush spans buf style =
     (if buf = [] then spans
      else if spans \<noteq> [] \<and> style_of (last spans) = style
        then butlast spans @ [last spans \<lparr>text_of := text_of (last spans) @ buf\<rparr>]
        else spans @ [\<lparr>text_of = buf, style_of = style\<rparr>])"

fun take_digits_loop :: "nat \<Rightarrow> nat \<Rightarrow> ustring \<Rightarrow> nat \<times> nat \<times> ustring" where
  "take_digits_loop v seen chars =
     (if seen < 2 then
        (case chars of
           c # rest \<Rightarrow>
             if is_ascii_digit c then take_digits_loop (v * 10 + (c - 48)) (seen + 1) rest
             else (v, seen, chars)
         | [] \<Rightarrow> (v, seen, chars))
      else (v, seen, chars))"

declare take_digits_loop.simps [simp del]

definition take_digits :: "ustring \<Rightarrow> nat option \<times> ustring" where
  "take_digits chars =
     (let (v, seen, rest) = take_digits_loop 0 0 chars
      in (if seen > 0 then Some (min v 255) else None, rest))"

definition take_color :: "ustring \<Rightarrow> (nat option \<times> nat option) \<times> ustring" where
  "take_color chars =
     (case take_digits chars of
        (None, rest) \<Rightarrow> ((None, None), rest)
      | (Some f, rest) \<Rightarrow>
          (if rest \<noteq> [] \<and> hd rest = ch (CHR '','') then
             (case take_digits (tl rest) of
                (Some b, rest') \<Rightarrow> ((Some f, Some b), rest')
              | (None, _) \<Rightarrow> ((Some f, None), rest))
           else ((Some f, None), rest)))"

definition take_six :: "ustring \<Rightarrow> bool \<times> ustring" where
  "take_six chars =
     (if 6 \<le> length chars \<and> list_all is_ascii_hexdigit (take 6 chars)
      then (True, drop 6 chars) else (False, chars))"

definition take_hex_color :: "ustring \<Rightarrow> ustring" where
  "take_hex_color chars =
     (case take_six chars of
        (True, rest) \<Rightarrow>
          (if rest \<noteq> [] \<and> hd rest = ch (CHR '','')
           then (case take_six (tl rest) of (True, rest') \<Rightarrow> rest' | (False, _) \<Rightarrow> rest)
           else rest)
      | (False, rest) \<Rightarrow> rest)"

lemma take_digits_loop_le:
  "take_digits_loop v seen chars = (v', seen', rest) \<Longrightarrow> length rest \<le> length chars"
proof (induction v seen chars rule: take_digits_loop.induct)
  case (1 v seen chars)
  from "1.prems" "1.IH" show ?case
    by (subst (asm) take_digits_loop.simps)
      (fastforce split: if_splits list.splits)
qed

lemma take_digits_le: "take_digits chars = (d, rest) \<Longrightarrow> length rest \<le> length chars"
  by (auto simp: take_digits_def split: prod.splits dest: take_digits_loop_le)

lemma take_color_le: "take_color chars = (p, rest) \<Longrightarrow> length rest \<le> length chars"
  by (auto simp: take_color_def split: prod.splits option.splits if_splits
      dest!: take_digits_le)

lemma take_hex_color_le: "length (take_hex_color chars) \<le> length chars"
  by (auto simp: take_hex_color_def take_six_def split: prod.splits bool.splits if_splits)

function parse_loop ::
  "text_span list \<Rightarrow> span_style \<Rightarrow> ustring \<Rightarrow> ustring \<Rightarrow> text_span list" where
  "parse_loop spans style buf [] = flush spans buf style"
| "parse_loop spans style buf (c # chars) =
     (if c = BOLD then
        parse_loop (flush spans buf style) (style\<lparr>bold := \<not> bold style\<rparr>) [] chars
      else if c = ITALIC then
        parse_loop (flush spans buf style) (style\<lparr>italic := \<not> italic style\<rparr>) [] chars
      else if c = UNDERLINE then
        parse_loop (flush spans buf style) (style\<lparr>underline := \<not> underline style\<rparr>) [] chars
      else if c = STRIKETHROUGH then
        parse_loop (flush spans buf style) (style\<lparr>strikethrough := \<not> strikethrough style\<rparr>) [] chars
      else if c = MONOSPACE then
        parse_loop (flush spans buf style) (style\<lparr>monospace := \<not> monospace style\<rparr>) [] chars
      else if c = INVERSE then
        parse_loop (flush spans buf style) (style\<lparr>inverse := \<not> inverse style\<rparr>) [] chars
      else if c = RESET then
        parse_loop (flush spans buf style) default_style [] chars
      else if c = COLOR then
        parse_loop (flush spans buf style)
          (style\<lparr>fg := fst (fst (take_color chars)), bg := snd (fst (take_color chars))\<rparr>)
          [] (snd (take_color chars))
      else if c = HEX_COLOR then
        parse_loop (flush spans buf style) (style\<lparr>fg := None, bg := None\<rparr>) []
          (take_hex_color chars)
      else if is_forbidden c then parse_loop spans style buf chars
      else parse_loop spans style (buf @ [c]) chars)"
  by pat_completeness auto
termination
proof (relation "measure (\<lambda>(spans, style, buf, chars). length chars)", goal_cases)
  case (9 spans style buf c chars)
  then show ?case
    using take_color_le [of chars "fst (take_color chars)" "snd (take_color chars)"]
    by (simp add: le_imp_less_Suc)
next
  case (10 spans style buf c chars)
  then show ?case
    using take_hex_color_le [of chars] by (simp add: le_imp_less_Suc)
qed auto

definition parse :: "ustring \<Rightarrow> text_span list" where
  "parse input = parse_loop [] default_style [] input"

definition strip :: "ustring \<Rightarrow> ustring" where
  "strip input = concat (map text_of (parse input))"

definition opens_like_a_background :: "ustring \<Rightarrow> bool" where
  "opens_like_a_background s \<longleftrightarrow>
     (case s of c # d # _ \<Rightarrow> c = ch (CHR '','') \<and> is_ascii_digit d | _ \<Rightarrow> False)"

text \<open>\<^verbatim>\<open>{n:02}\<close>: decimal, padded to two digits.\<close>

definition fmt02 :: "nat \<Rightarrow> ustring" where
  "fmt02 n = (if n < 10 then [48] else []) @ show_nat n"

definition encode_color :: "text_span \<Rightarrow> ustring" where
  "encode_color sp =
     (case fg (style_of sp) of
        None \<Rightarrow> []
      | Some f \<Rightarrow>
          COLOR # fmt02 f
          @ (case bg (style_of sp) of None \<Rightarrow> [] | Some b \<Rightarrow> ch (CHR '','') # fmt02 b)
          @ (if bg (style_of sp) = None \<and> opens_like_a_background (text_of sp)
             then [BOLD, BOLD] else []))"

definition encode_span :: "text_span \<Rightarrow> ustring" where
  "encode_span sp =
     [RESET]
     @ (if bold (style_of sp) then [BOLD] else [])
     @ (if italic (style_of sp) then [ITALIC] else [])
     @ (if underline (style_of sp) then [UNDERLINE] else [])
     @ (if strikethrough (style_of sp) then [STRIKETHROUGH] else [])
     @ (if monospace (style_of sp) then [MONOSPACE] else [])
     @ (if inverse (style_of sp) then [INVERSE] else [])
     @ encode_color sp
     @ text_of sp"

definition encode :: "text_span list \<Rightarrow> ustring" where
  "encode spans = concat (map encode_span spans)"

section \<open>What the parser produces\<close>

text \<open>
  A style the wire can carry: both colours have at most two digits, and a background comes with a
  foreground. A span is well formed when it has text, the text is free of control characters, and
  its style is of that kind; a list of spans is, when no two neighbours share a style.
\<close>

definition style_ok :: "span_style \<Rightarrow> bool" where
  "style_ok st \<longleftrightarrow> (\<forall>f. fg st = Some f \<longrightarrow> f \<le> 99) \<and> (\<forall>b. bg st = Some b \<longrightarrow> b \<le> 99)
     \<and> (bg st \<noteq> None \<longrightarrow> fg st \<noteq> None)"

definition span_ok :: "text_span \<Rightarrow> bool" where
  "span_ok sp \<longleftrightarrow> text_of sp \<noteq> [] \<and> (\<forall>c \<in> set (text_of sp). \<not> is_forbidden c) \<and> style_ok (style_of sp)"

fun no_twins :: "text_span list \<Rightarrow> bool" where
  "no_twins (a # b # rest) \<longleftrightarrow> style_of a \<noteq> style_of b \<and> no_twins (b # rest)"
| "no_twins _ \<longleftrightarrow> True"

definition spans_ok :: "text_span list \<Rightarrow> bool" where
  "spans_ok spans \<longleftrightarrow> list_all span_ok spans \<and> no_twins spans"

lemma take_digits_cases:
  "take_digits chars =
     (case chars of
        c # d # rest \<Rightarrow>
          if is_ascii_digit c then
            (if is_ascii_digit d then (Some ((c - 48) * 10 + (d - 48)), rest) else (Some (c - 48), d # rest))
          else (None, chars)
      | [c] \<Rightarrow> if is_ascii_digit c then (Some (c - 48), []) else (None, chars)
      | [] \<Rightarrow> (None, []))"
proof -
  have two: "take_digits_loop v (Suc (Suc 0)) cs = (v, Suc (Suc 0), cs)" for v cs
    by (simp add: take_digits_loop.simps [of v "Suc (Suc 0)" cs])
  have one: "take_digits_loop v (Suc 0) cs =
      (case cs of d # rest \<Rightarrow> if is_ascii_digit d then (v * 10 + (d - 48), Suc (Suc 0), rest)
                             else (v, Suc 0, cs)
       | [] \<Rightarrow> (v, Suc 0, []))" for v cs
    by (simp add: take_digits_loop.simps [of v "Suc 0" cs] two split: list.splits)
  show ?thesis
    by (auto simp: take_digits_def is_ascii_digit_def one take_digits_loop.simps [of 0 0 chars]
        split: list.splits)
qed

lemma take_digits_le_99: "take_digits chars = (Some n, rest) \<Longrightarrow> n \<le> 99"
  by (auto simp: take_digits_cases is_ascii_digit_def split: list.splits if_splits)

lemma take_color_ok:
  "style_ok (st\<lparr>fg := fst (fst (take_color chars)), bg := snd (fst (take_color chars))\<rparr>)"
  by (auto simp: style_ok_def take_color_def split: prod.splits option.splits if_splits
      dest: take_digits_le_99)

lemma no_twins_snoc:
  "no_twins (spans @ [a]) \<longleftrightarrow> no_twins spans \<and> (spans = [] \<or> style_of (last spans) \<noteq> style_of a)"
  by (induction spans rule: no_twins.induct) auto

lemma no_twins_last_style:
  "spans \<noteq> [] \<Longrightarrow> style_of a = style_of (last spans) \<Longrightarrow> no_twins (butlast spans @ [a]) = no_twins spans"
  by (cases spans rule: rev_cases) (auto simp: no_twins_snoc)

lemma no_twins_prefix: "no_twins (xs @ ys) \<Longrightarrow> no_twins xs"
  by (induction xs rule: no_twins.induct) auto

lemma flush_ok:
  assumes "spans_ok spans" "\<forall>c \<in> set buf. \<not> is_forbidden c" "style_ok style"
  shows "spans_ok (flush spans buf style)"
proof (cases "buf = []")
  case True
  with assms show ?thesis by (simp add: flush_def)
next
  case False
  show ?thesis
  proof (cases "spans \<noteq> [] \<and> style_of (last spans) = style")
    case True
    then have "span_ok (last spans)" and "list_all span_ok (butlast spans)"
      using assms(1) by (auto simp: spans_ok_def list_all_iff dest: in_set_butlastD)
    with True False assms show ?thesis
      by (auto simp: flush_def spans_ok_def span_ok_def no_twins_last_style)
  next
    case no_merge: False
    with False assms show ?thesis
      by (auto simp: flush_def spans_ok_def span_ok_def no_twins_snoc)
  qed
qed

lemma style_ok_default [simp]: "style_ok default_style"
  by (simp add: style_ok_def default_style_def)

lemma parse_loop_ok:
  assumes "spans_ok spans" "style_ok style" "\<forall>c \<in> set buf. \<not> is_forbidden c"
  shows "spans_ok (parse_loop spans style buf chars)"
  using assms
proof (induction spans style buf chars rule: parse_loop.induct)
  case (1 spans style buf)
  then show ?case by (simp add: flush_ok)
next
  case (2 spans style buf c chars)
  have f: "spans_ok (flush spans buf style)"
    using 2(12-14) by (simp add: flush_ok)
  have toggles: "style_ok (style\<lparr>bold := x\<rparr>)" "style_ok (style\<lparr>italic := x\<rparr>)"
    "style_ok (style\<lparr>underline := x\<rparr>)" "style_ok (style\<lparr>strikethrough := x\<rparr>)"
    "style_ok (style\<lparr>monospace := x\<rparr>)" "style_ok (style\<lparr>inverse := x\<rparr>)"
    "style_ok (style\<lparr>fg := None, bg := None\<rparr>)" for x
    using 2(13) by (simp_all add: style_ok_def)
  show ?case
    using 2 f toggles take_color_ok [where st = style and chars = chars]
    by (simp only: parse_loop.simps split: if_splits) simp
qed

section \<open>Encoding and parsing again\<close>

lemma fmt02_eq: "n \<le> 99 \<Longrightarrow> fmt02 n = [48 + n div 10, 48 + n mod 10]"
  by (auto simp: fmt02_def show_nat.simps [of n] show_nat.simps [of "n div 10"])

lemma take_digits_fmt02:
  assumes "n \<le> 99"
  shows "take_digits (fmt02 n @ rest) = (Some n, rest)"
proof -
  have "n mod 10 \<le> 9" using mod_less_divisor [of 10 n] by simp
  with assms show ?thesis
    by (simp add: fmt02_eq take_digits_cases is_ascii_digit_def)
qed

text \<open>What may follow a span in an encoded line: nothing, or the reset of the next span.\<close>

definition at_boundary :: "ustring \<Rightarrow> bool" where
  "at_boundary rest \<longleftrightarrow> rest = [] \<or> hd rest = RESET"

lemma take_digits_not_digit: "s = [] \<or> \<not> is_ascii_digit (hd s) \<Longrightarrow> take_digits s = (None, s)"
  by (cases s) (auto simp: take_digits_cases split: list.splits)

lemma take_color_fg:
  assumes "f \<le> 99" "body \<noteq> []" "\<not> opens_like_a_background body" "at_boundary rest"
  shows "take_color (fmt02 f @ body @ rest) = ((Some f, None), body @ rest)"
proof -
  obtain c cs where t: "body = c # cs" using assms(2) by (cases body) auto
  have "c = ch (CHR '','') \<Longrightarrow> cs @ rest = [] \<or> \<not> is_ascii_digit (hd (cs @ rest))"
    using assms(3,4) t
    by (cases cs) (auto simp: opens_like_a_background_def at_boundary_def is_ascii_digit_def RESET_def)
  then have "c = ch (CHR '','') \<Longrightarrow> take_digits (cs @ rest) = (None, cs @ rest)"
    by (rule take_digits_not_digit)
  with t assms(1) show ?thesis
    by (auto simp: take_color_def take_digits_fmt02)
qed

lemma take_color_fg_bold:
  "f \<le> 99 \<Longrightarrow> take_color (fmt02 f @ BOLD # rest) = ((Some f, None), BOLD # rest)"
  by (simp add: take_color_def take_digits_fmt02 BOLD_def)

lemma take_color_fg_bg:
  "f \<le> 99 \<Longrightarrow> b \<le> 99 \<Longrightarrow>
    take_color (fmt02 f @ 44 # fmt02 b @ rest) = ((Some f, Some b), rest)"
  by (simp add: take_color_def take_digits_fmt02)

lemma codes_distinct [simp]:
  "ITALIC \<noteq> BOLD" "UNDERLINE \<noteq> BOLD" "UNDERLINE \<noteq> ITALIC"
  "STRIKETHROUGH \<noteq> BOLD" "STRIKETHROUGH \<noteq> ITALIC" "STRIKETHROUGH \<noteq> UNDERLINE"
  "MONOSPACE \<noteq> BOLD" "MONOSPACE \<noteq> ITALIC" "MONOSPACE \<noteq> UNDERLINE" "MONOSPACE \<noteq> STRIKETHROUGH"
  "INVERSE \<noteq> BOLD" "INVERSE \<noteq> ITALIC" "INVERSE \<noteq> UNDERLINE" "INVERSE \<noteq> STRIKETHROUGH"
  "INVERSE \<noteq> MONOSPACE"
  "RESET \<noteq> BOLD" "RESET \<noteq> ITALIC" "RESET \<noteq> UNDERLINE" "RESET \<noteq> STRIKETHROUGH"
  "RESET \<noteq> MONOSPACE" "RESET \<noteq> INVERSE"
  "COLOR \<noteq> BOLD" "COLOR \<noteq> ITALIC" "COLOR \<noteq> UNDERLINE" "COLOR \<noteq> STRIKETHROUGH"
  "COLOR \<noteq> MONOSPACE" "COLOR \<noteq> INVERSE" "COLOR \<noteq> RESET"
  by (simp_all add: code_defs)

lemma flush_empty [simp]: "flush spans [] style = spans"
  by (simp add: flush_def)

lemma parse_loop_text:
  "\<forall>c \<in> set t. \<not> is_forbidden c \<Longrightarrow>
    parse_loop spans style buf (t @ rest) = parse_loop spans style (buf @ t) rest"
proof (induction t arbitrary: buf)
  case (Cons c t)
  then have "\<not> is_forbidden c" by simp
  then have "c \<notin> {BOLD, ITALIC, UNDERLINE, STRIKETHROUGH, MONOSPACE, INVERSE, RESET, COLOR, HEX_COLOR}"
    by (auto simp: is_forbidden_def code_defs)
  with Cons show ?case by simp
qed simp

lemma parse_loop_color:
  assumes "span_ok sp" "at_boundary rest" "st\<lparr>fg := None, bg := None\<rparr> = style_of sp\<lparr>fg := None, bg := None\<rparr>"
    "fg st = None" "bg st = None"
  shows "parse_loop spans st [] (encode_color sp @ text_of sp @ rest)
       = parse_loop spans (style_of sp) (text_of sp) rest"
proof -
  have body: "parse_loop spans s [] (text_of sp @ rest) = parse_loop spans s (text_of sp) rest" for s
    using assms(1) parse_loop_text [of "text_of sp" spans s "[]" rest] by (simp add: span_ok_def)
  have st: "style_of sp = st\<lparr>fg := fg (style_of sp), bg := bg (style_of sp)\<rparr>"
    using assms(3) by (cases st, cases "style_of sp") simp
  show ?thesis
  proof (cases "fg (style_of sp)")
    case None
    with assms(1) have "bg (style_of sp) = None" by (auto simp: span_ok_def style_ok_def)
    with None assms(4,5) st have "style_of sp = st" by (cases st) simp
    with None body show ?thesis by (simp add: encode_color_def)
  next
    case (Some f)
    with assms(1) have f: "f \<le> 99" by (simp add: span_ok_def style_ok_def)
    show ?thesis
    proof (cases "bg (style_of sp)")
      case (Some b)
      with assms(1) have "b \<le> 99" by (simp add: span_ok_def style_ok_def)
      with f \<open>fg (style_of sp) = Some f\<close> Some st body show ?thesis
        by (simp add: encode_color_def take_color_fg_bg)
    next
      case None
      have ne: "text_of sp \<noteq> []" using assms(1) by (simp add: span_ok_def)
      show ?thesis
      proof (cases "opens_like_a_background (text_of sp)")
        case True
        have twice: "st\<lparr>fg := x, bg := y, bold := \<not> bold st\<rparr>\<lparr>bold := bold st\<rparr> = st\<lparr>fg := x, bg := y\<rparr>" for x y
          by (cases st) simp
        from True None \<open>fg (style_of sp) = Some f\<close> f st body twice show ?thesis
          by (simp add: encode_color_def take_color_fg_bold)
      next
        case False
        with None \<open>fg (style_of sp) = Some f\<close> f st body take_color_fg [OF f ne False assms(2)] show ?thesis
          by (simp add: encode_color_def)
      qed
    qed
  qed
qed

text \<open>An optional toggle code in front of the rest of the line, from a style where it is off.\<close>

lemma parse_loop_toggles:
  "\<not> bold st \<Longrightarrow> parse_loop spans st [] ((if b then [BOLD] else []) @ rest)
     = parse_loop spans (st\<lparr>bold := b\<rparr>) [] rest"
  "\<not> italic st \<Longrightarrow> parse_loop spans st [] ((if b then [ITALIC] else []) @ rest)
     = parse_loop spans (st\<lparr>italic := b\<rparr>) [] rest"
  "\<not> underline st \<Longrightarrow> parse_loop spans st [] ((if b then [UNDERLINE] else []) @ rest)
     = parse_loop spans (st\<lparr>underline := b\<rparr>) [] rest"
  "\<not> strikethrough st \<Longrightarrow> parse_loop spans st [] ((if b then [STRIKETHROUGH] else []) @ rest)
     = parse_loop spans (st\<lparr>strikethrough := b\<rparr>) [] rest"
  "\<not> monospace st \<Longrightarrow> parse_loop spans st [] ((if b then [MONOSPACE] else []) @ rest)
     = parse_loop spans (st\<lparr>monospace := b\<rparr>) [] rest"
  "\<not> inverse st \<Longrightarrow> parse_loop spans st [] ((if b then [INVERSE] else []) @ rest)
     = parse_loop spans (st\<lparr>inverse := b\<rparr>) [] rest"
  by (cases st; simp)+

lemma parse_loop_encode_span:
  assumes "span_ok sp" "at_boundary rest"
  shows "parse_loop spans style buf (encode_span sp @ rest)
       = parse_loop (flush spans buf style) (style_of sp) (text_of sp) rest"
proof -
  let ?st = "style_of sp\<lparr>fg := None, bg := None\<rparr>"
  have st: "?st = default_style\<lparr>bold := bold (style_of sp), italic := italic (style_of sp),
      underline := underline (style_of sp), strikethrough := strikethrough (style_of sp),
      monospace := monospace (style_of sp), inverse := inverse (style_of sp)\<rparr>"
    by (cases "style_of sp") (simp add: default_style_def)
  have reset: "parse_loop spans style buf ([RESET] @ r)
      = parse_loop (flush spans buf style) default_style [] r" for r
    by simp
  have "parse_loop spans style buf (encode_span sp @ rest)
      = parse_loop (flush spans buf style) ?st [] (encode_color sp @ text_of sp @ rest)"
    unfolding encode_span_def st append_assoc reset
    by (simp add: parse_loop_toggles default_style_def del: parse_loop.simps)
  also have "\<dots> = parse_loop (flush spans buf style) (style_of sp) (text_of sp) rest"
    by (rule parse_loop_color [OF assms]) simp_all
  finally show ?thesis .
qed

lemma at_boundary_encode: "at_boundary (encode spans)"
  by (cases spans) (simp_all add: encode_def encode_span_def at_boundary_def)

lemma flush_append:
  "span_ok sp \<Longrightarrow> spans = [] \<or> style_of (last spans) \<noteq> style_of sp \<Longrightarrow>
    flush spans (text_of sp) (style_of sp) = spans @ [sp]"
  by (auto simp: flush_def span_ok_def)

lemma parse_loop_encode:
  assumes "list_all span_ok (sp # spans)" "no_twins (acc @ sp # spans)"
  shows "parse_loop acc (style_of sp) (text_of sp) (encode spans) = acc @ sp # spans"
  using assms
proof (induction spans arbitrary: acc sp)
  case Nil
  then show ?case
    using flush_append [of sp "acc"] by (auto simp: encode_def no_twins_snoc)
next
  case (Cons sp' spans)
  from Cons.prems have ok: "span_ok sp" "span_ok sp'" by auto
  have "no_twins ((acc @ [sp]) @ sp' # spans)" using Cons.prems by simp
  then have prefix: "no_twins (acc @ [sp])" by (rule no_twins_prefix)
  have enc: "encode (sp' # spans) = encode_span sp' @ encode spans" by (simp add: encode_def)
  have "parse_loop acc (style_of sp) (text_of sp) (encode (sp' # spans))
      = parse_loop (flush acc (text_of sp) (style_of sp)) (style_of sp') (text_of sp') (encode spans)"
    unfolding enc using ok(2) at_boundary_encode by (rule parse_loop_encode_span)
  also have "flush acc (text_of sp) (style_of sp) = acc @ [sp]"
    using ok(1) prefix by (auto intro!: flush_append simp: no_twins_snoc)
  also have "parse_loop (acc @ [sp]) (style_of sp') (text_of sp') (encode spans)
      = (acc @ [sp]) @ sp' # spans"
    using Cons.prems by (intro Cons.IH) auto
  finally show ?case by simp
qed

lemma parse_encode_ok:
  assumes "spans_ok spans"
  shows "parse (encode spans) = spans"
proof (cases spans)
  case Nil
  then show ?thesis by (simp add: parse_def encode_def)
next
  case (Cons sp rest)
  with assms have "span_ok sp" by (simp add: spans_ok_def)
  then have "parse (encode spans) = parse_loop [] (style_of sp) (text_of sp) (encode rest)"
    using Cons parse_loop_encode_span [of sp "encode rest" "[]" default_style "[]"] at_boundary_encode
    by (simp add: parse_def encode_def)
  also have "\<dots> = spans"
    using assms Cons parse_loop_encode [of sp rest "[]"] by (simp add: spans_ok_def)
  finally show ?thesis .
qed

lemma parse_ok: "spans_ok (parse input)"
  unfolding parse_def by (rule parse_loop_ok) (simp_all add: spans_ok_def)

section \<open>Properties\<close>

lemma strip_set: "set (strip input) = (\<Union>sp \<in> set (parse input). set (text_of sp))"
  by (simp add: strip_def)

lemma strip_no_forbidden: "c \<in> set (strip input) \<Longrightarrow> \<not> is_forbidden c"
  using parse_ok [of input] by (auto simp: strip_set spans_ok_def list_all_iff span_ok_def)

text \<open>
  C14: A message survives the history store: what is written back with the codes
  and read again is the same list of spans the message was first read as, for every input.
\<close>

theorem stored_text_stable: "parse (encode (parse input)) = parse input"
  by (rule parse_encode_ok [OF parse_ok])

text \<open>
  C24: Encoding loses nothing: every list of spans the wire can carry (text without
  control characters, colours of at most two digits, no background without a foreground, no two
  neighbours in one style) is read back exactly, whatever digits or commas its text starts with.
\<close>

theorem encode_decodes:
  assumes "spans_ok spans"
  shows "parse (encode spans) = spans"
  using assms by (rule parse_encode_ok)

theorem encode_decodes_witness:
  "parse (encode [\<lparr>text_of = U '',5 red'', style_of = default_style\<lparr>fg := Some 4\<rparr>\<rparr>,
                  \<lparr>text_of = U ''7 plain'', style_of = default_style\<rparr>])
   = [\<lparr>text_of = U '',5 red'', style_of = default_style\<lparr>fg := Some 4\<rparr>\<rparr>,
      \<lparr>text_of = U ''7 plain'', style_of = default_style\<rparr>]"
  by (rule encode_decodes)
    (simp add: spans_ok_def span_ok_def style_ok_def default_style_def is_forbidden_def)


end
