(* ===== verification/Reply.thy ===== *)
theory Reply
  imports Rust_Str
begin

text \<open>
  Model of \<^verbatim>\<open>core/ddirc-core/src/text/reply.rs\<close>: the textual form of a reply, written by
  \<open>format_reply\<close> and recognised by \<open>parse_reply\<close>, and the excerpt quoted in it. The argument \<open>alnum\<close>
  is \<open>char::is_alphanumeric\<close>.
\<close>

definition MAX_EXCERPT :: nat where "MAX_EXCERPT = 40"
definition OPEN :: uchar where "OPEN = 0xAB"
definition CLOSE :: uchar where "CLOSE = 0xBB"
definition ELLIPSIS :: uchar where "ELLIPSIS = 0x2026"
definition REPLY_MAX_NICK :: nat where "REPLY_MAX_NICK = 64"

record reply_ref =
  rr_msgid :: "ustring option"
  rr_nick :: ustring
  rr_excerpt :: ustring

definition excerpt_char :: "uchar \<Rightarrow> uchar" where
  "excerpt_char c = (if c = CLOSE then 34 else if is_control c then 32 else c)"

definition excerpt :: "ustring \<Rightarrow> ustring" where
  "excerpt text =
     (let flat = join [32] (split_whitespace (map excerpt_char text));
          head = take MAX_EXCERPT flat
      in if drop MAX_EXCERPT flat \<noteq> [] then trim_end head @ [ELLIPSIS] else head)"

definition format_reply :: "ustring \<Rightarrow> ustring \<Rightarrow> ustring \<Rightarrow> ustring" where
  "format_reply nick exc body = nick @ U '': '' @ [OPEN] @ exc @ [CLOSE] @ [32] @ body"

definition reply_nick_char :: "(uchar \<Rightarrow> bool) \<Rightarrow> uchar \<Rightarrow> bool" where
  "reply_nick_char alnum c \<longleftrightarrow> alnum c \<or> c \<in> set (U ''-_[]'' @ [0x5C, 0x60] @ U ''^{}|'')"

definition parse_reply :: "(uchar \<Rightarrow> bool) \<Rightarrow> ustring \<Rightarrow> (reply_ref \<times> ustring) option" where
  "parse_reply alnum text =
     (case split_once (U '': '') text of
        None \<Rightarrow> None
      | Some (nick, rest) \<Rightarrow>
          if nick = [] \<or> length nick > REPLY_MAX_NICK \<or> \<not> list_all (reply_nick_char alnum) nick
          then None
          else (case strip_prefix [OPEN] rest of
              None \<Rightarrow> None
            | Some rest \<Rightarrow>
                (case split_once [CLOSE] rest of
                   None \<Rightarrow> None
                 | Some (quoted, body) \<Rightarrow>
                     if length quoted > MAX_EXCERPT + 1 \<or> OPEN \<in> set quoted then None
                     else Some (\<lparr>rr_msgid = None, rr_nick = nick, rr_excerpt = quoted\<rparr>,
                                case strip_prefix [32] body of Some b \<Rightarrow> b | None \<Rightarrow> body))))"

section \<open>Excerpts\<close>

lemma join_set: "c \<in> set (join sep ws) \<Longrightarrow> c \<in> set sep \<or> (\<exists>w \<in> set ws. c \<in> set w)"
  by (induction sep ws rule: join.induct) auto

lemma excerpt_char_safe: "excerpt_char c \<noteq> CLOSE \<and> \<not> is_control (excerpt_char c)"
  by (auto simp: excerpt_char_def is_control_def CLOSE_def)

lemma excerpt_flat_chars:
  assumes "c \<in> set (join [32] (split_whitespace (map excerpt_char s)))"
  shows "c = 32 \<or> (\<exists>d \<in> set s. c = excerpt_char d) \<and> \<not> is_whitespace c"
  using join_set [OF assms] split_whitespace_pieces [of _ "map excerpt_char s"] by fastforce

lemma excerpt_chars:
  assumes "c \<in> set (excerpt s)"
  shows "c = 32 \<or> c = ELLIPSIS \<or> (\<exists>d \<in> set s. c = excerpt_char d)"
proof -
  let ?flat = "join [32] (split_whitespace (map excerpt_char s))"
  have "set (trim_end (take MAX_EXCERPT ?flat)) \<subseteq> set ?flat"
    unfolding trim_end_def by (rule subset_trans [OF trim_end_matches_set set_take_subset])
  then have "c \<in> set ?flat \<or> c = ELLIPSIS"
    using assms set_take_subset [of MAX_EXCERPT ?flat]
    by (auto simp: excerpt_def Let_def split: if_splits)
  then show ?thesis using excerpt_flat_chars [of c s] by auto
qed

lemma excerpt_no_close: "CLOSE \<notin> set (excerpt s)"
  using excerpt_chars [of CLOSE s] excerpt_char_safe
  by (force simp: CLOSE_def ELLIPSIS_def)

lemma excerpt_no_control: "c \<in> set (excerpt s) \<Longrightarrow> \<not> is_control c"
  using excerpt_chars [of c s] excerpt_char_safe
  by (auto simp: is_control_def ELLIPSIS_def)

lemma excerpt_no_open: "OPEN \<notin> set s \<Longrightarrow> OPEN \<notin> set (excerpt s)"
  using excerpt_chars [of OPEN s]
  by (auto simp: excerpt_char_def OPEN_def ELLIPSIS_def split: if_splits)

lemma excerpt_length: "length (excerpt s) \<le> MAX_EXCERPT + 1"
proof -
  have "length (trim_end t) \<le> length t" for t
    unfolding trim_end_def by (rule prefix_length_le [OF trim_end_matches_prefix])
  from this [of "take MAX_EXCERPT (join [32] (split_whitespace (map excerpt_char s)))"] show ?thesis
    by (auto simp: excerpt_def Let_def)
qed

section \<open>Writing and reading back\<close>

definition reply_nick_ok :: "(uchar \<Rightarrow> bool) \<Rightarrow> ustring \<Rightarrow> bool" where
  "reply_nick_ok alnum nick \<longleftrightarrow>
     nick \<noteq> [] \<and> length nick \<le> REPLY_MAX_NICK \<and> list_all (reply_nick_char alnum) nick"

lemma split_once_nick:
  assumes "reply_nick_ok alnum nick" "\<not> alnum (ch (CHR '':''))"
  shows "split_once (U '': '') (nick @ U '': '' @ rest) = Some (nick, rest)"
proof (rule split_once_head_notin)
  fix c assume "c \<in> set nick"
  then have "reply_nick_char alnum c"
    using assms(1) by (simp add: reply_nick_ok_def list_all_iff)
  then show "c \<noteq> hd (U '': '')"
    using assms(2) by (auto simp: reply_nick_char_def)
qed simp

lemma parse_format_reply:
  assumes "reply_nick_ok alnum nick" "\<not> alnum (ch (CHR '':''))" "CLOSE \<notin> set exc"
  shows "parse_reply alnum (format_reply nick exc body) =
     (if length exc > MAX_EXCERPT + 1 \<or> OPEN \<in> set exc then None
      else Some (\<lparr>rr_msgid = None, rr_nick = nick, rr_excerpt = exc\<rparr>, body))"
proof -
  have "split_once (U '': '') (format_reply nick exc body) = Some (nick, OPEN # exc @ CLOSE # 32 # body)"
    unfolding format_reply_def using split_once_nick [OF assms(1,2)] by simp
  then show ?thesis
    using assms(1,3)
    by (simp add: parse_reply_def reply_nick_ok_def strip_prefix_def split_once_char)
qed

text \<open>Only text of exactly the written shape is recognised.\<close>

lemma parse_reply_shape:
  assumes "parse_reply alnum s = Some (r, body)"
  shows "reply_nick_ok alnum (rr_nick r) \<and> OPEN \<notin> set (rr_excerpt r) \<and> CLOSE \<notin> set (rr_excerpt r)
    \<and> length (rr_excerpt r) \<le> MAX_EXCERPT + 1
    \<and> (s = format_reply (rr_nick r) (rr_excerpt r) body
       \<or> s = rr_nick r @ U '': '' @ [OPEN] @ rr_excerpt r @ [CLOSE] @ body)"
proof -
  obtain nick rest where 1: "split_once (U '': '') s = Some (nick, rest)"
    and nick: "reply_nick_ok alnum nick"
    and 2: "parse_reply alnum s = (case strip_prefix [OPEN] rest of
              None \<Rightarrow> None
            | Some rest \<Rightarrow>
                (case split_once [CLOSE] rest of
                   None \<Rightarrow> None
                 | Some (quoted, body) \<Rightarrow>
                     if length quoted > MAX_EXCERPT + 1 \<or> OPEN \<in> set quoted then None
                     else Some (\<lparr>rr_msgid = None, rr_nick = nick, rr_excerpt = quoted\<rparr>,
                                case strip_prefix [32] body of Some b \<Rightarrow> b | None \<Rightarrow> body)))"
    using assms by (auto simp: parse_reply_def reply_nick_ok_def not_less split: option.splits if_splits)
  from 2 assms obtain rest' where 3: "strip_prefix [OPEN] rest = Some rest'"
    by (cases "strip_prefix [OPEN] rest") auto
  from 2 3 assms obtain quoted body' where 4: "split_once [CLOSE] rest' = Some (quoted, body')"
    by (cases "split_once [CLOSE] rest'") auto
  from 2 3 4 assms have 5: "length quoted \<le> MAX_EXCERPT + 1" "OPEN \<notin> set quoted"
    and r: "r = \<lparr>rr_msgid = None, rr_nick = nick, rr_excerpt = quoted\<rparr>"
    and body: "body = (case strip_prefix [32] body' of Some b \<Rightarrow> b | None \<Rightarrow> body')"
    by (auto split: if_splits)
  from 4 have 6: "rest' = quoted @ CLOSE # body'" "CLOSE \<notin> set quoted"
    by (simp_all add: split_once_char_Some)
  from 1 have "s = nick @ U '': '' @ rest" by (rule split_once_eq)
  moreover have "body' = 32 # body \<or> body' = body"
    using body by (auto simp: strip_prefix_Some split: option.splits)
  ultimately show ?thesis
    using nick 3 5 6 r by (auto simp: format_reply_def strip_prefix_Some)
qed

section \<open>Properties\<close>

lemma excerpt_keeps_open: "OPEN \<in> set (excerpt [OPEN])"
  by (simp add: excerpt_def excerpt_char_def OPEN_def CLOSE_def is_control_def MAX_EXCERPT_def
      split_whitespace_def is_whitespace_def Let_def)

text \<open>
  C36: A reply written to the wire, for any quoted message and any nick of nick
  characters, is recognised by the parser with its nick, its excerpt and its body, with one
  exception: when the excerpt holds an opening guillemet, which the excerpt keeps and the parser
  refuses, the line is taken for plain text.
\<close>

theorem reply_round_trip:
  assumes "reply_nick_ok alnum nick" "\<not> alnum (ch (CHR '':''))"
  shows "parse_reply alnum (format_reply nick (excerpt quoted) body) =
     (if OPEN \<in> set (excerpt quoted) then None
      else Some (\<lparr>rr_msgid = None, rr_nick = nick, rr_excerpt = excerpt quoted\<rparr>, body))"
  using assms parse_format_reply [OF assms(1,2) excerpt_no_close]
    excerpt_length [of quoted] by (simp add: not_less)

theorem reply_round_trip_witness:
  "parse_reply (\<lambda>c. 97 \<le> c \<and> c \<le> 122) (format_reply (U ''bob'') (excerpt (U ''a  question'')) (U ''yes''))
     = Some (\<lparr>rr_msgid = None, rr_nick = U ''bob'', rr_excerpt = excerpt (U ''a  question'')\<rparr>, U ''yes'')
   \<and> parse_reply (\<lambda>c. 97 \<le> c \<and> c \<le> 122) (format_reply (U ''bob'') (excerpt [OPEN]) (U ''yes'')) = None"
proof -
  have "reply_nick_ok (\<lambda>c. 97 \<le> c \<and> c \<le> 122) (U ''bob'')"
    by (simp add: reply_nick_ok_def reply_nick_char_def REPLY_MAX_NICK_def)
  from reply_round_trip [OF this, of "U ''a  question''"] reply_round_trip [OF this, of "[OPEN]"]
  show ?thesis using excerpt_no_open [of "U ''a  question''"] excerpt_keeps_open
    by (simp add: OPEN_def)
qed

end
