(* ===== verification/ISupport.thy ===== *)
theory ISupport
  imports Rust_Str
begin

text \<open>
  Model of \<^verbatim>\<open>core/ddirc-core/src/state/isupport.rs\<close>: what a server says of itself in
  \<open>RPL_ISUPPORT\<close>, and the three rules the client state depends on, case folding, the prefix modes
  and which channel modes carry a parameter.
\<close>

section \<open>Case mapping\<close>

datatype case_mapping = Ascii | Rfc1459 | Rfc1459Strict

definition case_from_token :: "ustring \<Rightarrow> case_mapping option" where
  "case_from_token token =
     (let t = to_ascii_lowercase token
      in if t = U ''ascii'' then Some Ascii
         else if t = U ''rfc1459'' then Some Rfc1459
         else if t = U ''rfc1459-strict'' \<or> t = U ''strict-rfc1459'' then Some Rfc1459Strict
         else None)"

definition fold_char :: "case_mapping \<Rightarrow> uchar \<Rightarrow> uchar" where
  "fold_char m c =
     (if 65 \<le> c \<and> c \<le> 90 then ascii_lower c
      else if m \<in> {Rfc1459, Rfc1459Strict} \<and> c = 0x5B then 0x7B
      else if m \<in> {Rfc1459, Rfc1459Strict} \<and> c = 0x5D then 0x7D
      else if m \<in> {Rfc1459, Rfc1459Strict} \<and> c = 0x5C then 0x7C
      else if m = Rfc1459 \<and> c = 0x7E then 0x5E
      else c)"

definition normalize_name :: "case_mapping \<Rightarrow> ustring \<Rightarrow> ustring" where
  "normalize_name m name = map (fold_char m) name"

definition case_eq :: "case_mapping \<Rightarrow> ustring \<Rightarrow> ustring \<Rightarrow> bool" where
  "case_eq m a b \<longleftrightarrow> normalize_name m a = normalize_name m b"

section \<open>Prefix modes\<close>

type_synonym prefixes = "(uchar \<times> uchar) list"

definition default_prefixes :: prefixes where
  "default_prefixes = [(ch (CHR ''o''), ch (CHR ''@'')), (ch (CHR ''v''), ch (CHR ''+''))]"

definition parse_prefixes :: "ustring \<Rightarrow> prefixes option" where
  "parse_prefixes spec0 =
     (let spec = trim spec0
      in if spec = [] then Some []
         else (case strip_prefix (U ''('') spec of
             None \<Rightarrow> None
           | Some rest \<Rightarrow>
               (case split_once (U '')'') rest of
                  None \<Rightarrow> None
                | Some (modes, pfx) \<Rightarrow>
                    if length modes \<noteq> length pfx then None else Some (zip modes pfx))))"

definition prefix_for_mode :: "prefixes \<Rightarrow> uchar \<Rightarrow> uchar option" where
  "prefix_for_mode ps mode = map_option snd (List.find (\<lambda>(m, p). m = mode) ps)"

definition is_prefix_mode :: "prefixes \<Rightarrow> uchar \<Rightarrow> bool" where
  "is_prefix_mode ps mode \<longleftrightarrow> list_ex (\<lambda>(m, p). m = mode) ps"

definition is_prefix_char :: "prefixes \<Rightarrow> uchar \<Rightarrow> bool" where
  "is_prefix_char ps c \<longleftrightarrow> list_ex (\<lambda>(m, p). p = c) ps"

text \<open>\<open>Iterator::position\<close>.\<close>

fun position :: "('a \<Rightarrow> bool) \<Rightarrow> 'a list \<Rightarrow> nat option" where
  "position P [] = None"
| "position P (x # xs) = (if P x then Some 0 else map_option Suc (position P xs))"

definition rank :: "prefixes \<Rightarrow> uchar \<Rightarrow> nat option" where
  "rank ps pfx = position (\<lambda>(m, p). p = pfx) ps"

definition usize_max :: nat where
  "usize_max = 18446744073709551615"

definition rank_or_max :: "prefixes \<Rightarrow> uchar \<Rightarrow> nat" where
  "rank_or_max ps c = (case rank ps c of Some r \<Rightarrow> r | None \<Rightarrow> usize_max)"

text \<open>\<open>Iterator::min_by_key\<close>: the first of the elements with the least key.\<close>

fun min_by_key :: "('a \<Rightarrow> nat) \<Rightarrow> 'a list \<Rightarrow> 'a option" where
  "min_by_key f [] = None"
| "min_by_key f (x # xs) =
     (case min_by_key f xs of None \<Rightarrow> Some x | Some y \<Rightarrow> if f y < f x then Some y else Some x)"

definition highest :: "prefixes \<Rightarrow> uchar list \<Rightarrow> uchar option" where
  "highest ps held = min_by_key (rank_or_max ps) (filter (is_prefix_char ps) held)"

definition split_prefixes :: "prefixes \<Rightarrow> ustring \<Rightarrow> uchar list \<times> ustring" where
  "split_prefixes ps name =
     (takeWhile (is_prefix_char ps) name, dropWhile (is_prefix_char ps) name)"

section \<open>Channel modes\<close>

record chan_modes =
  list_modes :: ustring
  always_param :: ustring
  param_when_set :: ustring
  no_param :: ustring

definition default_chan_modes :: chan_modes where
  "default_chan_modes = \<lparr>list_modes = U ''beI'', always_param = U ''k'', param_when_set = U ''l'',
     no_param = U ''imnpstr''\<rparr>"

definition parse_chan_modes :: "ustring \<Rightarrow> chan_modes option" where
  "parse_chan_modes spec =
     (case split_on (\<lambda>c. c = ch (CHR '','')) spec of
        a # b # c # d # _ \<Rightarrow>
          Some \<lparr>list_modes = a, always_param = b, param_when_set = c, no_param = d\<rparr>
      | _ \<Rightarrow> None)"

definition takes_parameter :: "chan_modes \<Rightarrow> uchar \<Rightarrow> bool \<Rightarrow> bool" where
  "takes_parameter cm mode adding =
     (if mode \<in> set (list_modes cm) \<or> mode \<in> set (always_param cm) then True
      else if mode \<in> set (param_when_set cm) then adding
      else False)"

definition is_known :: "chan_modes \<Rightarrow> uchar \<Rightarrow> bool" where
  "is_known cm mode \<longleftrightarrow> mode \<in> set (list_modes cm) \<or> mode \<in> set (always_param cm)
     \<or> mode \<in> set (param_when_set cm) \<or> mode \<in> set (no_param cm)"

section \<open>The whole reply\<close>

record isupport =
  casemapping :: case_mapping
  prefixes_of :: prefixes
  chanmodes :: chan_modes
  network :: "ustring option"
  channel_len :: "nat option"
  nick_len :: "nat option"

definition default_isupport :: isupport where
  "default_isupport = \<lparr>casemapping = Rfc1459, prefixes_of = default_prefixes,
     chanmodes = default_chan_modes, network = None, channel_len = None, nick_len = None\<rparr>"

definition isupport_reset :: "ustring \<Rightarrow> isupport \<Rightarrow> isupport" where
  "isupport_reset key s =
     (let k = to_ascii_uppercase key
      in if k = U ''PREFIX'' then s\<lparr>prefixes_of := default_prefixes\<rparr>
         else if k = U ''CHANMODES'' then s\<lparr>chanmodes := default_chan_modes\<rparr>
         else if k = U ''CASEMAPPING'' then s\<lparr>casemapping := Rfc1459\<rparr>
         else if k = U ''NETWORK'' then s\<lparr>network := None\<rparr>
         else if k = U ''CHANNELLEN'' then s\<lparr>channel_len := None\<rparr>
         else if k = U ''NICKLEN'' then s\<lparr>nick_len := None\<rparr>
         else s)"

definition isupport_token :: "ustring \<Rightarrow> isupport \<Rightarrow> isupport" where
  "isupport_token token s =
     (if 32 \<in> set token then s
      else
        (let (key, val) = (case split_once (U ''='') token of
                              Some (k, v) \<Rightarrow> (k, Some v) | None \<Rightarrow> (token, None))
         in case strip_prefix (U ''-'') key of
              Some key' \<Rightarrow> isupport_reset key' s
            | None \<Rightarrow>
                (let k = to_ascii_uppercase key
                 in if k = U ''PREFIX'' then
                      (case Option.bind val parse_prefixes of Some p \<Rightarrow> s\<lparr>prefixes_of := p\<rparr> | None \<Rightarrow> s)
                    else if k = U ''CHANMODES'' then
                      (case Option.bind val parse_chan_modes of Some c \<Rightarrow> s\<lparr>chanmodes := c\<rparr> | None \<Rightarrow> s)
                    else if k = U ''CASEMAPPING'' then
                      (case Option.bind val case_from_token of Some m \<Rightarrow> s\<lparr>casemapping := m\<rparr> | None \<Rightarrow> s)
                    else if k = U ''NETWORK'' then s\<lparr>network := val\<rparr>
                    else if k = U ''CHANNELLEN'' then s\<lparr>channel_len := Option.bind val parse_u64\<rparr>
                    else if k = U ''NICKLEN'' then s\<lparr>nick_len := Option.bind val parse_u64\<rparr>
                    else s)))"

fun isupport_apply :: "ustring list \<Rightarrow> isupport \<Rightarrow> isupport" where
  "isupport_apply [] s = s"
| "isupport_apply (t # ts) s = isupport_apply ts (isupport_token t s)"

section \<open>Lemmas\<close>

lemma fold_char_idem [simp]: "fold_char m (fold_char m c) = fold_char m c"
  by (cases m) (auto simp: fold_char_def ascii_lower_def)

lemma normalize_idem [simp]: "normalize_name m (normalize_name m s) = normalize_name m s"
  by (simp add: normalize_name_def)

lemma length_normalize [simp]: "length (normalize_name m s) = length s"
  by (simp add: normalize_name_def)

lemma normalize_eq_Nil [simp]: "normalize_name m s = [] \<longleftrightarrow> s = []"
  by (simp add: normalize_name_def)

lemma case_eq_equiv: "equivp (case_eq m)"
  by (auto intro!: equivpI reflpI sympI transpI simp: case_eq_def)

text \<open>The strict mapping and the ASCII mapping identify less, so a name equal under them stays equal.\<close>

lemma case_eq_ascii_rfc: "case_eq Ascii a b \<Longrightarrow> case_eq m a b"
proof -
  have "fold_char m (fold_char Ascii c) = fold_char m c" for c
    by (cases m) (auto simp: fold_char_def ascii_lower_def)
  then have *: "normalize_name m (normalize_name Ascii s) = normalize_name m s" for s
    by (simp add: normalize_name_def comp_def)
  show "case_eq Ascii a b \<Longrightarrow> case_eq m a b"
    unfolding case_eq_def by (metis *)
qed

lemma prefix_for_mode_iff: "is_prefix_mode ps mode \<longleftrightarrow> prefix_for_mode ps mode \<noteq> None"
  by (induction ps) (auto simp: is_prefix_mode_def prefix_for_mode_def)

lemma prefix_for_mode_char: "prefix_for_mode ps mode = Some p \<Longrightarrow> is_prefix_char ps p"
  by (induction ps) (auto simp: is_prefix_char_def prefix_for_mode_def split: if_splits)

lemma rank_None: "rank ps c = None \<longleftrightarrow> \<not> is_prefix_char ps c"
  by (induction ps) (auto simp: rank_def is_prefix_char_def)

lemma position_less: "position P xs = Some i \<Longrightarrow> i < length xs \<and> P (xs ! i) \<and> (\<forall>j < i. \<not> P (xs ! j))"
proof (induction xs arbitrary: i)
  case (Cons x xs)
  then show ?case by (auto simp: less_Suc_eq_0_disj split: if_splits)
qed simp

lemma rank_inj: "rank ps a = Some i \<Longrightarrow> rank ps b = Some i \<Longrightarrow> a = b"
  unfolding rank_def by (auto dest!: position_less split: prod.splits)

lemma min_by_key_Some:
  "min_by_key f xs = Some y \<Longrightarrow> y \<in> set xs \<and> (\<forall>x \<in> set xs. f y \<le> f x)"
proof (induction xs arbitrary: y)
  case (Cons x xs)
  show ?case
  proof (cases "min_by_key f xs")
    case None
    then have "xs = []" by (cases xs) (auto split: option.splits if_splits)
    with Cons.prems show ?thesis by simp
  next
    case (Some z)
    with Cons show ?thesis by (auto split: if_splits)
  qed
qed simp

lemma min_by_key_None: "min_by_key f xs = None \<longleftrightarrow> xs = []"
  by (cases xs) (auto split: option.splits)

lemma highest_Some:
  "highest ps held = Some p \<Longrightarrow>
     p \<in> set held \<and> is_prefix_char ps p \<and> (\<forall>q \<in> set held. is_prefix_char ps q \<longrightarrow> rank_or_max ps p \<le> rank_or_max ps q)"
  unfolding highest_def by (auto dest!: min_by_key_Some)

lemma highest_None: "highest ps held = None \<longleftrightarrow> (\<forall>q \<in> set held. \<not> is_prefix_char ps q)"
  by (auto simp: highest_def min_by_key_None filter_empty_conv)

lemma split_prefixes_correct:
  assumes "split_prefixes ps name = (found, nick)"
  shows "name = found @ nick" "\<forall>c \<in> set found. is_prefix_char ps c"
    "nick \<noteq> [] \<Longrightarrow> \<not> is_prefix_char ps (hd nick)"
  using assms hd_dropWhile [of "is_prefix_char ps" name]
  by (auto simp: split_prefixes_def dest: set_takeWhileD)

text \<open>
  A reply line decides each setting it mentions and leaves the others alone, so a server that
  repeats a line changes nothing.
\<close>

definition settles :: "(isupport \<Rightarrow> 'a) \<Rightarrow> (isupport \<Rightarrow> isupport) \<Rightarrow> bool" where
  "settles fld f \<longleftrightarrow> (\<forall>s. fld (f s) = fld s) \<or> (\<exists>v. \<forall>s. fld (f s) = v)"

lemma settles_idem: "settles fld f \<Longrightarrow> fld (f (f s)) = fld (f s)"
  unfolding settles_def by metis

lemma settles_comp: "settles fld f \<Longrightarrow> settles fld g \<Longrightarrow> settles fld (\<lambda>s. f (g s))"
  unfolding settles_def by metis

lemma settles_updates:
  "settles casemapping (\<lambda>s. s\<lparr>casemapping := m\<rparr>)" "settles casemapping (\<lambda>s. s\<lparr>prefixes_of := p\<rparr>)"
  "settles casemapping (\<lambda>s. s\<lparr>chanmodes := q\<rparr>)" "settles casemapping (\<lambda>s. s\<lparr>network := w\<rparr>)"
  "settles casemapping (\<lambda>s. s\<lparr>channel_len := x\<rparr>)" "settles casemapping (\<lambda>s. s\<lparr>nick_len := y\<rparr>)"
  "settles prefixes_of (\<lambda>s. s\<lparr>casemapping := m\<rparr>)" "settles prefixes_of (\<lambda>s. s\<lparr>prefixes_of := p\<rparr>)"
  "settles prefixes_of (\<lambda>s. s\<lparr>chanmodes := q\<rparr>)" "settles prefixes_of (\<lambda>s. s\<lparr>network := w\<rparr>)"
  "settles prefixes_of (\<lambda>s. s\<lparr>channel_len := x\<rparr>)" "settles prefixes_of (\<lambda>s. s\<lparr>nick_len := y\<rparr>)"
  "settles chanmodes (\<lambda>s. s\<lparr>casemapping := m\<rparr>)" "settles chanmodes (\<lambda>s. s\<lparr>prefixes_of := p\<rparr>)"
  "settles chanmodes (\<lambda>s. s\<lparr>chanmodes := q\<rparr>)" "settles chanmodes (\<lambda>s. s\<lparr>network := w\<rparr>)"
  "settles chanmodes (\<lambda>s. s\<lparr>channel_len := x\<rparr>)" "settles chanmodes (\<lambda>s. s\<lparr>nick_len := y\<rparr>)"
  "settles network (\<lambda>s. s\<lparr>casemapping := m\<rparr>)" "settles network (\<lambda>s. s\<lparr>prefixes_of := p\<rparr>)"
  "settles network (\<lambda>s. s\<lparr>chanmodes := q\<rparr>)" "settles network (\<lambda>s. s\<lparr>network := w\<rparr>)"
  "settles network (\<lambda>s. s\<lparr>channel_len := x\<rparr>)" "settles network (\<lambda>s. s\<lparr>nick_len := y\<rparr>)"
  "settles channel_len (\<lambda>s. s\<lparr>casemapping := m\<rparr>)" "settles channel_len (\<lambda>s. s\<lparr>prefixes_of := p\<rparr>)"
  "settles channel_len (\<lambda>s. s\<lparr>chanmodes := q\<rparr>)" "settles channel_len (\<lambda>s. s\<lparr>network := w\<rparr>)"
  "settles channel_len (\<lambda>s. s\<lparr>channel_len := x\<rparr>)" "settles channel_len (\<lambda>s. s\<lparr>nick_len := y\<rparr>)"
  "settles nick_len (\<lambda>s. s\<lparr>casemapping := m\<rparr>)" "settles nick_len (\<lambda>s. s\<lparr>prefixes_of := p\<rparr>)"
  "settles nick_len (\<lambda>s. s\<lparr>chanmodes := q\<rparr>)" "settles nick_len (\<lambda>s. s\<lparr>network := w\<rparr>)"
  "settles nick_len (\<lambda>s. s\<lparr>channel_len := x\<rparr>)" "settles nick_len (\<lambda>s. s\<lparr>nick_len := y\<rparr>)"
  "settles fld (\<lambda>s. s)"
  by (simp_all add: settles_def)

lemma settles_if:
  "settles fld f \<Longrightarrow> settles fld g \<Longrightarrow> settles fld (\<lambda>s. if c then f s else g s)"
  by (cases c) simp_all

lemma settles_option:
  "settles fld f \<Longrightarrow> (\<And>v. settles fld (g v)) \<Longrightarrow>
    settles fld (\<lambda>s. case x of None \<Rightarrow> f s | Some v \<Rightarrow> g v s)"
  by (cases x) simp_all

lemma settles_prod: "(\<And>a b. settles fld (g a b)) \<Longrightarrow> settles fld (\<lambda>s. case p of (a, b) \<Rightarrow> g a b s)"
  by (cases p) simp

lemma isupport_reset_settles:
  "settles casemapping (isupport_reset k)" "settles prefixes_of (isupport_reset k)"
  "settles chanmodes (isupport_reset k)" "settles network (isupport_reset k)"
  "settles channel_len (isupport_reset k)" "settles nick_len (isupport_reset k)"
  unfolding isupport_reset_def [abs_def] Let_def by (intro settles_if settles_updates)+

lemma isupport_token_settles:
  "settles casemapping (isupport_token t)" "settles prefixes_of (isupport_token t)"
  "settles chanmodes (isupport_token t)" "settles network (isupport_token t)"
  "settles channel_len (isupport_token t)" "settles nick_len (isupport_token t)"
  unfolding isupport_token_def [abs_def] Let_def
  by (intro settles_if settles_prod settles_option settles_updates isupport_reset_settles)+

lemma isupport_apply_settles:
  assumes "\<And>t. settles fld (isupport_token t)"
  shows "settles fld (isupport_apply ts)"
proof (induction ts)
  case Nil
  have "isupport_apply [] = (\<lambda>s. s)" by (simp add: fun_eq_iff)
  then show ?case by (simp add: settles_updates)
next
  case (Cons t ts)
  have "isupport_apply (t # ts) = (\<lambda>s. isupport_apply ts (isupport_token t s))"
    by (simp add: fun_eq_iff)
  then show ?case using settles_comp [OF Cons assms] by simp
qed

section \<open>Properties\<close>




end
