(* ===== verification/Mention.thy ===== *)
theory Mention
  imports Rust_Str
begin

text \<open>
  The whole-word search behind mentions, used by \<^verbatim>\<open>Session::is_mention\<close> and by
  \<^verbatim>\<open>xmpp::state::mentions\<close>. Both walk \<open>str::match_indices\<close>, which reports the occurrences of the needle
  from left to right and without overlap, and look at the character on either side of each.
\<close>

definition before_of :: "ustring \<Rightarrow> uchar option" where
  "before_of pre = (if pre = [] then None else Some (last pre))"

definition after_of :: "ustring \<Rightarrow> uchar option" where
  "after_of post = (case post of [] \<Rightarrow> None | c # _ \<Rightarrow> Some c)"

text \<open>
  The pairs of neighbours of the non-overlapping occurrences; \<open>prev\<close> is the character before the
  part still to be searched. The needle is not empty at any call.
\<close>

function match_contexts ::
  "ustring \<Rightarrow> uchar option \<Rightarrow> ustring \<Rightarrow> (uchar option \<times> uchar option) list" where
  "match_contexts needle prev [] = []"
| "match_contexts needle prev (c # cs) =
     (if needle \<noteq> [] \<and> prefix needle (c # cs)
      then (prev, after_of (drop (length needle) (c # cs)))
           # match_contexts needle (before_of needle) (drop (length needle) (c # cs))
      else match_contexts needle (Some c) cs)"
  by pat_completeness auto
termination
  by (relation "measure (\<lambda>(needle, prev, hay). length hay)") auto

definition whole_word :: "(uchar \<Rightarrow> bool) \<Rightarrow> ustring \<Rightarrow> ustring \<Rightarrow> bool" where
  "whole_word word needle hay \<longleftrightarrow>
     list_ex (\<lambda>(b, a). \<not> (case b of Some c \<Rightarrow> word c | None \<Rightarrow> False)
                     \<and> \<not> (case a of Some c \<Rightarrow> word c | None \<Rightarrow> False))
       (match_contexts needle None hay)"

section \<open>Correctness of the search\<close>

abbreviation free_edge :: "(uchar \<Rightarrow> bool) \<Rightarrow> uchar option \<Rightarrow> bool" where
  "free_edge word x \<equiv> \<not> (case x of Some c \<Rightarrow> word c | None \<Rightarrow> False)"

lemma before_of_append: "before_of (p @ q) = (if q = [] then before_of p else before_of q)"
  by (simp add: before_of_def)

lemma after_of_append: "after_of (p @ q) = (if p = [] then after_of q else after_of p)"
  by (cases p) (simp_all add: after_of_def)

lemma match_contexts_hit:
  assumes "needle \<noteq> []"
  shows "match_contexts needle prev (needle @ post) =
    (prev, after_of post) # match_contexts needle (before_of needle) post"
proof -
  obtain c cs where c: "needle @ post = c # cs" using assms by (cases "needle @ post") auto
  have "drop (length needle) (c # cs) = post" "prefix needle (c # cs)"
    unfolding c [symmetric] by simp_all
  with assms show ?thesis unfolding c by simp
qed

text \<open>Every reported pair is the pair of neighbours of an occurrence.\<close>

lemma match_contexts_sound:
  assumes "(b, a) \<in> set (match_contexts needle (before_of seen) hay)"
  shows "\<exists>pre post. seen @ hay = pre @ needle @ post \<and> b = before_of pre \<and> a = after_of post"
  using assms
proof (induction hay arbitrary: seen rule: length_induct)
  case (1 hay)
  show ?case
  proof (cases hay)
    case Nil
    with 1 show ?thesis by simp
  next
    case (Cons c cs)
    show ?thesis
    proof (cases "needle \<noteq> [] \<and> prefix needle hay")
      case True
      then obtain post where post: "hay = needle @ post" by (auto simp: prefix_def)
      with True have len: "length post < length hay" by simp
      from "1.prems" True post have
        "b = before_of seen \<and> a = after_of post
         \<or> (b, a) \<in> set (match_contexts needle (before_of (seen @ needle)) post)"
        using match_contexts_hit [of needle] by (auto simp: before_of_append)
      then show ?thesis
      proof
        assume "(b, a) \<in> set (match_contexts needle (before_of (seen @ needle)) post)"
        with "1.IH" len have "\<exists>pre post'. (seen @ needle) @ post = pre @ needle @ post'
            \<and> b = before_of pre \<and> a = after_of post'" by blast
        with post show ?thesis by simp
      qed (use post in blast)
    next
      case False
      with "1.prems" Cons have "(b, a) \<in> set (match_contexts needle (before_of (seen @ [c])) cs)"
        by (auto simp: before_of_def)
      moreover have "length cs < length hay" using Cons by simp
      ultimately have "\<exists>pre post. (seen @ [c]) @ cs = pre @ needle @ post
          \<and> b = before_of pre \<and> a = after_of post" using "1.IH" by blast
      with Cons show ?thesis by simp
    qed
  qed
qed

text \<open>
  An occurrence with free edges is never skipped: an occurrence overlapping an earlier one has a
  character of the needle before it, and those are word characters.
\<close>

lemma match_contexts_complete:
  assumes "\<And>c. c \<in> set needle \<Longrightarrow> word c" "needle \<noteq> []"
    and "hay = pre @ needle @ post"
    and "free_edge word (if pre = [] then prev else before_of pre)" "free_edge word (after_of post)"
  shows "\<exists>(b, a) \<in> set (match_contexts needle prev hay). free_edge word b \<and> free_edge word a"
  using assms(3-5)
proof (induction hay arbitrary: pre prev rule: length_induct)
  case (1 hay)
  have "hay \<noteq> []" using "1.prems"(1) assms(2) by simp
  then obtain c cs where hay: "hay = c # cs" by (cases hay) auto
  show ?case
  proof (cases "prefix needle hay")
    case False
    then obtain pre' where pre: "pre = c # pre'" using "1.prems"(1) hay by (cases pre) auto
    then have "cs = pre' @ needle @ post" using "1.prems"(1) hay by simp
    moreover have "free_edge word (if pre' = [] then Some c else before_of pre')"
      using "1.prems"(2) pre by (auto simp: before_of_def split: if_splits)
    ultimately have "\<exists>(b, a) \<in> set (match_contexts needle (Some c) cs). free_edge word b \<and> free_edge word a"
      using "1.IH" [rule_format, of cs pre' "Some c"] "1.prems"(3) hay by simp
    with False hay assms(2) show ?thesis by simp
  next
    case True
    then obtain rest where rest: "hay = needle @ rest" by (auto simp: prefix_def)
    have step: "match_contexts needle prev hay
        = (prev, after_of rest) # match_contexts needle (before_of needle) rest"
      unfolding rest by (rule match_contexts_hit [OF assms(2)])
    show ?thesis
    proof (cases "pre = []")
      case True
      then have "rest = post" using "1.prems"(1) rest by simp
      with True step "1.prems" show ?thesis by simp
    next
      case False
      have "length needle \<le> length pre"
      proof (rule ccontr)
        assume less: "\<not> length needle \<le> length pre"
        have "pre = take (length pre) hay" using "1.prems"(1) by simp
        also have "\<dots> = take (length pre) needle" using rest less by simp
        finally have "set pre \<subseteq> set needle" using set_take_subset by metis
        then have "last pre \<in> set needle" using False last_in_set by blast
        then have "word (last pre)" by (rule assms(1))
        with False "1.prems"(2) show False by (simp add: before_of_def)
      qed
      then obtain pre' where pre': "pre = needle @ pre'"
        using "1.prems"(1) rest by (metis append_eq_append_conv_if append_take_drop_id)
      then have "rest = pre' @ needle @ post" using "1.prems"(1) rest by simp
      moreover have "free_edge word (if pre' = [] then before_of needle else before_of pre')"
        using "1.prems"(2) pre' assms(2) by (auto simp: before_of_append)
      moreover have "length rest < length hay" using rest assms(2) by simp
      ultimately have "\<exists>(b, a) \<in> set (match_contexts needle (before_of needle) rest).
          free_edge word b \<and> free_edge word a"
        using "1.IH" "1.prems"(3) by blast
      with step show ?thesis by auto
    qed
  qed
qed

lemma whole_word_iff:
  assumes "\<And>c. c \<in> set needle \<Longrightarrow> word c" "needle \<noteq> []"
  shows "whole_word word needle hay \<longleftrightarrow>
    (\<exists>pre post. hay = pre @ needle @ post \<and> (pre = [] \<or> \<not> word (last pre)) \<and> (post = [] \<or> \<not> word (hd post)))"
proof
  assume "whole_word word needle hay"
  then obtain b a where ba: "(b, a) \<in> set (match_contexts needle (before_of []) hay)"
    and free: "free_edge word b" "free_edge word a"
    by (auto simp: whole_word_def list_ex_iff before_of_def)
  from match_contexts_sound [OF ba] free
  show "\<exists>pre post. hay = pre @ needle @ post \<and> (pre = [] \<or> \<not> word (last pre)) \<and> (post = [] \<or> \<not> word (hd post))"
    by (fastforce simp: before_of_def after_of_def split: list.splits if_splits)
next
  assume "\<exists>pre post. hay = pre @ needle @ post \<and> (pre = [] \<or> \<not> word (last pre)) \<and> (post = [] \<or> \<not> word (hd post))"
  then obtain pre post where *: "hay = pre @ needle @ post" "pre = [] \<or> \<not> word (last pre)"
    "post = [] \<or> \<not> word (hd post)" by blast
  have "\<exists>(b, a) \<in> set (match_contexts needle None hay). free_edge word b \<and> free_edge word a"
  proof (rule match_contexts_complete [OF assms *(1)])
    show "free_edge word (if pre = [] then None else before_of pre)"
      using *(2) by (auto simp: before_of_def)
    show "free_edge word (after_of post)"
      using *(3) by (cases post) (simp_all add: after_of_def)
  qed
  then show "whole_word word needle hay"
    by (auto simp: whole_word_def list_ex_iff)
qed

end
