(* ===== verification/Session.thy ===== *)
theory Session
  imports ISupport Mention
begin

text \<open>
  Model of \<^verbatim>\<open>core/ddirc-core/src/state/mod.rs\<close>: the channels, members and privileges a client tracks
  for one server connection. Every operation of \<^verbatim>\<open>Session\<close> is a function on the record
  \<open>session\<close>; the ones that report something return it beside the new state. Each of them is driven by
  text a server sent, so the invariant \<open>session_ok\<close> states the bounds the module promises and the
  lemmas show that every operation keeps it. \<open>alnum\<close> is \<open>char::is_alphanumeric\<close> and \<open>lower\<close>
  is \<open>char::to_lowercase\<close>, which maps a character to one or more characters.
\<close>

section \<open>State\<close>

definition MAX_CHANNELS :: nat where "MAX_CHANNELS = 512"
definition MAX_MEMBERS :: nat where "MAX_MEMBERS = 20000"
definition MAX_TOPIC :: nat where "MAX_TOPIC = 1000"
definition MAX_NICK :: nat where "MAX_NICK = 64"
definition MAX_CHANNEL_NAME :: nat where "MAX_CHANNEL_NAME = 200"

definition truncate_chars :: "ustring \<Rightarrow> nat \<Rightarrow> ustring" where
  "truncate_chars s n = take n s"

text \<open>The prefixes are a \<open>BTreeSet\<close>: an ascending list without repetitions.\<close>

record member =
  m_nick :: ustring
  m_prefixes :: "uchar list"
  m_away :: bool

definition new_member :: "ustring \<Rightarrow> member" where
  "new_member nick = \<lparr>m_nick = truncate_chars nick MAX_NICK, m_prefixes = [], m_away = False\<rparr>"

record channel =
  c_name :: ustring
  c_topic :: "ustring option"
  c_members :: "(ustring, member) hmap"
  c_names_in_progress :: bool

definition new_channel :: "ustring \<Rightarrow> channel" where
  "new_channel name = \<lparr>c_name = truncate_chars name MAX_CHANNEL_NAME, c_topic = None, c_members = [],
     c_names_in_progress = False\<rparr>"

record session =
  s_nick :: ustring
  s_isupport :: isupport
  s_channels :: "(ustring, channel) hmap"

definition new_session :: "ustring \<Rightarrow> session" where
  "new_session nick = \<lparr>s_nick = truncate_chars nick MAX_NICK, s_isupport = default_isupport, s_channels = []\<rparr>"

section \<open>Display order of a roster\<close>

definition display_prefix :: "prefixes \<Rightarrow> member \<Rightarrow> uchar option" where
  "display_prefix ps m = highest ps (m_prefixes m)"

definition display_rank :: "prefixes \<Rightarrow> member \<Rightarrow> nat" where
  "display_rank ps m =
     min (case Option.bind (display_prefix ps m) (rank ps) of Some r \<Rightarrow> r | None \<Rightarrow> usize_max) 0xffff"

definition hex_digit :: "nat \<Rightarrow> uchar" where
  "hex_digit d = (if d < 10 then 48 + d else 87 + d)"

definition hex4 :: "nat \<Rightarrow> ustring" where
  "hex4 r = map (\<lambda>shift. hex_digit (r div 2 ^ shift mod 16)) [12, 8, 4, 0]"

definition member_sort_key :: "(uchar \<Rightarrow> ustring) \<Rightarrow> prefixes \<Rightarrow> member \<Rightarrow> ustring" where
  "member_sort_key lower ps m =
     hex4 (display_rank ps m) @ [1] @ concat (map lower (m_nick m))"

definition sorted_members :: "(uchar \<Rightarrow> ustring) \<Rightarrow> prefixes \<Rightarrow> channel \<Rightarrow> member list" where
  "sorted_members lower ps c = sort_key (member_sort_key lower ps) (hm_values (c_members c))"

section \<open>Operations\<close>

definition set_nick :: "ustring \<Rightarrow> session \<Rightarrow> session" where
  "set_nick nick s = s\<lparr>s_nick := truncate_chars nick MAX_NICK\<rparr>"

definition s_norm :: "session \<Rightarrow> ustring \<Rightarrow> ustring" where
  "s_norm s name = normalize_name (casemapping (s_isupport s)) name"

definition is_self :: "session \<Rightarrow> ustring \<Rightarrow> bool" where
  "is_self s nick \<longleftrightarrow> case_eq (casemapping (s_isupport s)) nick (s_nick s)"

definition same_nick :: "session \<Rightarrow> ustring \<Rightarrow> ustring \<Rightarrow> bool" where
  "same_nick s a b \<longleftrightarrow> case_eq (casemapping (s_isupport s)) a b"

definition channel_of :: "session \<Rightarrow> ustring \<Rightarrow> channel option" where
  "channel_of s name = hm_get (s_channels s) (s_norm s name)"

definition rekey_channel :: "case_mapping \<Rightarrow> channel \<Rightarrow> channel" where
  "rekey_channel mp c =
     c\<lparr>c_members := collect_map (map (\<lambda>m. (normalize_name mp (m_nick m), m)) (hm_values (c_members c)))\<rparr>"

definition rekey :: "session \<Rightarrow> session" where
  "rekey s =
     (let mp = casemapping (s_isupport s)
      in s\<lparr>s_channels := collect_map
             (map (\<lambda>c. (normalize_name mp (c_name c), rekey_channel mp c)) (hm_values (s_channels s)))\<rparr>)"

definition on_isupport :: "ustring list \<Rightarrow> session \<Rightarrow> session" where
  "on_isupport tokens s =
     (let before = casemapping (s_isupport s);
          s' = s\<lparr>s_isupport := isupport_apply tokens (s_isupport s)\<rparr>
      in if casemapping (s_isupport s') \<noteq> before then rekey s' else s')"

definition on_join :: "ustring \<Rightarrow> ustring \<Rightarrow> session \<Rightarrow> bool \<times> session" where
  "on_join channel nick s =
     (let key = s_norm s channel;
          made = (if hm_has (s_channels s) key then Some (s_channels s)
                  else if \<not> is_self s nick \<or> length (s_channels s) \<ge> MAX_CHANNELS then None
                  else Some (hm_insert key (new_channel channel) (s_channels s)))
      in case made of
           None \<Rightarrow> (False, s)
         | Some chans \<Rightarrow>
             (let member_key = s_norm s nick; s' = s\<lparr>s_channels := chans\<rparr>
              in case hm_get chans key of
                   None \<Rightarrow> (False, s')
                 | Some chan \<Rightarrow>
                     if length (c_members chan) \<ge> MAX_MEMBERS \<and> \<not> hm_has (c_members chan) member_key
                     then (False, s')
                     else (True, s'\<lparr>s_channels := hm_modify key
                            (\<lambda>c. c\<lparr>c_members := hm_insert member_key (new_member nick) (c_members c)\<rparr>)
                            chans\<rparr>)))"

definition on_part :: "ustring \<Rightarrow> ustring \<Rightarrow> session \<Rightarrow> bool \<times> session" where
  "on_part channel nick s =
     (let key = s_norm s channel
      in if is_self s nick
         then (hm_has (s_channels s) key, s\<lparr>s_channels := hm_remove key (s_channels s)\<rparr>)
         else
           (let member_key = s_norm s nick
            in case hm_get (s_channels s) key of
                 None \<Rightarrow> (False, s)
               | Some chan \<Rightarrow>
                   (hm_has (c_members chan) member_key,
                    s\<lparr>s_channels := hm_modify key
                       (\<lambda>c. c\<lparr>c_members := hm_remove member_key (c_members c)\<rparr>) (s_channels s)\<rparr>)))"

definition on_quit :: "ustring \<Rightarrow> session \<Rightarrow> ustring list \<times> session" where
  "on_quit nick s =
     (if is_self s nick
      then (map c_name (hm_values (s_channels s)), s\<lparr>s_channels := []\<rparr>)
      else
        (let member_key = s_norm s nick
         in (map c_name (filter (\<lambda>c. hm_has (c_members c) member_key) (hm_values (s_channels s))),
             s\<lparr>s_channels := map (\<lambda>(k, c). (k,
                 if hm_has (c_members c) member_key
                 then c\<lparr>c_members := hm_remove member_key (c_members c)\<rparr> else c)) (s_channels s)\<rparr>)))"

definition rename_in :: "ustring \<Rightarrow> ustring \<Rightarrow> ustring \<Rightarrow> channel \<Rightarrow> channel" where
  "rename_in old_key new_key display c =
     (case hm_get (c_members c) old_key of
        None \<Rightarrow> c
      | Some m \<Rightarrow> c\<lparr>c_members := hm_insert new_key (m\<lparr>m_nick := display\<rparr>)
                                  (hm_remove old_key (c_members c))\<rparr>)"

definition on_nick_change :: "ustring \<Rightarrow> ustring \<Rightarrow> session \<Rightarrow> ustring list \<times> session" where
  "on_nick_change old new s =
     (let s1 = (if is_self s old then set_nick new s else s);
          old_key = s_norm s1 old; new_key = s_norm s1 new;
          display = truncate_chars new MAX_NICK
      in (map c_name (filter (\<lambda>c. hm_has (c_members c) old_key) (hm_values (s_channels s1))),
          s1\<lparr>s_channels := map (\<lambda>(k, c). (k, rename_in old_key new_key display c)) (s_channels s1)\<rparr>))"

fun insert_all :: "uchar list \<Rightarrow> uchar list \<Rightarrow> uchar list" where
  "insert_all [] held = held"
| "insert_all (p # ps) held = insert_all ps (insort_insert p held)"

fun names_loop ::
  "case_mapping \<Rightarrow> prefixes \<Rightarrow> ustring list \<Rightarrow> (ustring, member) hmap \<Rightarrow> (ustring, member) hmap" where
  "names_loop mp ps [] members = members"
| "names_loop mp ps (entry # entries) members =
     (if length members \<ge> MAX_MEMBERS then members
      else
        (let (found, nick) = split_prefixes ps entry
         in if nick = [] then names_loop mp ps entries members
            else
              (let key = normalize_name mp nick;
                   m = (case hm_get members key of Some m \<Rightarrow> m | None \<Rightarrow> new_member nick)
               in names_loop mp ps entries
                    (hm_insert key (m\<lparr>m_prefixes := insert_all found (m_prefixes m)\<rparr>) members))))"

definition names_into :: "case_mapping \<Rightarrow> prefixes \<Rightarrow> ustring \<Rightarrow> channel \<Rightarrow> channel" where
  "names_into mp ps names c =
     (let c' = (if c_names_in_progress c then c else c\<lparr>c_names_in_progress := True, c_members := []\<rparr>)
      in c'\<lparr>c_members := names_loop mp ps (split_whitespace names) (c_members c')\<rparr>)"

definition on_names_reply :: "ustring \<Rightarrow> ustring \<Rightarrow> session \<Rightarrow> session" where
  "on_names_reply channel names s =
     (let key = s_norm s channel; mp = casemapping (s_isupport s); ps = prefixes_of (s_isupport s)
      in if \<not> hm_has (s_channels s) key \<and> length (s_channels s) \<ge> MAX_CHANNELS then s
         else
           (let chans = (if hm_has (s_channels s) key then s_channels s
                         else hm_insert key (new_channel channel) (s_channels s))
            in s\<lparr>s_channels := hm_modify key (names_into mp ps names) chans\<rparr>))"

definition on_end_of_names :: "ustring \<Rightarrow> session \<Rightarrow> session" where
  "on_end_of_names channel s =
     s\<lparr>s_channels := hm_modify (s_norm s channel) (\<lambda>c. c\<lparr>c_names_in_progress := False\<rparr>) (s_channels s)\<rparr>"

definition on_topic :: "ustring \<Rightarrow> ustring \<Rightarrow> session \<Rightarrow> session" where
  "on_topic channel topic s =
     s\<lparr>s_channels := hm_modify (s_norm s channel)
        (\<lambda>c. c\<lparr>c_topic := Some (truncate_chars topic MAX_TOPIC)\<rparr>) (s_channels s)\<rparr>"

definition set_privilege :: "bool \<Rightarrow> uchar \<Rightarrow> member \<Rightarrow> member" where
  "set_privilege adding pfx m =
     m\<lparr>m_prefixes := (if adding then insort_insert pfx (m_prefixes m) else removeAll pfx (m_prefixes m))\<rparr>"

fun mode_loop ::
  "case_mapping \<Rightarrow> prefixes \<Rightarrow> chan_modes \<Rightarrow> bool \<Rightarrow> ustring \<Rightarrow> ustring list
   \<Rightarrow> (ustring, member) hmap \<Rightarrow> ustring list \<Rightarrow> ustring list \<times> (ustring, member) hmap" where
  "mode_loop mp ps cm adding [] params members changed = (changed, members)"
| "mode_loop mp ps cm adding (mode # modes) params members changed =
     (if mode = ch (CHR ''+'') then mode_loop mp ps cm True modes params members changed
      else if mode = ch (CHR ''-'') then mode_loop mp ps cm False modes params members changed
      else if is_prefix_mode ps mode then
        (case params of
           [] \<Rightarrow> (changed, members)
         | target # params' \<Rightarrow>
             (case prefix_for_mode ps mode of
                None \<Rightarrow> mode_loop mp ps cm adding modes params' members changed
              | Some pfx \<Rightarrow>
                  (case hm_get members (normalize_name mp target) of
                     None \<Rightarrow> mode_loop mp ps cm adding modes params' members changed
                   | Some m \<Rightarrow>
                       mode_loop mp ps cm adding modes params'
                         (hm_modify (normalize_name mp target) (set_privilege adding pfx) members)
                         (changed @ [m_nick m]))))
      else if takes_parameter cm mode adding then
        (case params of
           [] \<Rightarrow> (changed, members)
         | _ # params' \<Rightarrow> mode_loop mp ps cm adding modes params' members changed)
      else mode_loop mp ps cm adding modes params members changed)"

definition on_mode :: "ustring \<Rightarrow> ustring \<Rightarrow> ustring list \<Rightarrow> session \<Rightarrow> ustring list \<times> session" where
  "on_mode channel modes params s =
     (let key = s_norm s channel; mp = casemapping (s_isupport s); ps = prefixes_of (s_isupport s);
          cm = chanmodes (s_isupport s)
      in case hm_get (s_channels s) key of
           None \<Rightarrow> ([], s)
         | Some chan \<Rightarrow>
             (let (changed, members) = mode_loop mp ps cm True modes params (c_members chan) []
              in (changed, s\<lparr>s_channels := hm_insert key (chan\<lparr>c_members := members\<rparr>) (s_channels s)\<rparr>)))"

definition set_away :: "ustring \<Rightarrow> bool \<Rightarrow> session \<Rightarrow> ustring list \<times> session" where
  "set_away nick away s =
     (let member_key = s_norm s nick;
          hit = (\<lambda>c. case hm_get (c_members c) member_key of Some m \<Rightarrow> m_away m \<noteq> away | None \<Rightarrow> False)
      in (map c_name (filter hit (hm_values (s_channels s))),
          s\<lparr>s_channels := map (\<lambda>(k, c). (k,
              if hit c then c\<lparr>c_members := hm_modify member_key (\<lambda>m. m\<lparr>m_away := away\<rparr>) (c_members c)\<rparr>
              else c)) (s_channels s)\<rparr>))"

definition known_nick :: "session \<Rightarrow> ustring \<Rightarrow> ustring option" where
  "known_nick s nick =
     (let member_key = s_norm s nick
      in case List.find (\<lambda>c. hm_has (c_members c) member_key) (hm_values (s_channels s)) of
           None \<Rightarrow> None
         | Some c \<Rightarrow> map_option m_nick (hm_get (c_members c) member_key))"

definition session_nick_char :: "(uchar \<Rightarrow> bool) \<Rightarrow> uchar \<Rightarrow> bool" where
  "session_nick_char alnum c \<longleftrightarrow> alnum c \<or> c \<in> set (U ''[]'' @ [0x5C, 0x60] @ U ''_^{|}-'')"

definition is_mention :: "(uchar \<Rightarrow> bool) \<Rightarrow> session \<Rightarrow> ustring \<Rightarrow> bool" where
  "is_mention alnum s text =
     (let haystack = s_norm s text; needle = s_norm s (s_nick s)
      in if needle = [] then False else whole_word (session_nick_char alnum) needle haystack)"

section \<open>Bounds\<close>

definition member_ok :: "member \<Rightarrow> bool" where
  "member_ok m \<longleftrightarrow> length (m_nick m) \<le> MAX_NICK \<and> sorted (m_prefixes m) \<and> distinct (m_prefixes m)"

definition channel_ok :: "channel \<Rightarrow> bool" where
  "channel_ok c \<longleftrightarrow> length (c_name c) \<le> MAX_CHANNEL_NAME
     \<and> (case c_topic c of None \<Rightarrow> True | Some t \<Rightarrow> length t \<le> MAX_TOPIC)
     \<and> hm_ok (c_members c) \<and> length (c_members c) \<le> MAX_MEMBERS \<and> hm_all member_ok (c_members c)"

definition session_ok :: "session \<Rightarrow> bool" where
  "session_ok s \<longleftrightarrow> length (s_nick s) \<le> MAX_NICK \<and> hm_ok (s_channels s)
     \<and> length (s_channels s) \<le> MAX_CHANNELS \<and> hm_all channel_ok (s_channels s)"

lemma new_member_ok [simp]: "member_ok (new_member nick)"
  by (simp add: member_ok_def new_member_def truncate_chars_def)

lemma new_channel_ok [simp]: "channel_ok (new_channel name)"
  by (simp add: channel_ok_def new_channel_def truncate_chars_def MAX_MEMBERS_def)

lemma new_session_ok: "session_ok (new_session nick)"
  by (simp add: session_ok_def new_session_def truncate_chars_def)

text \<open>An operation that changes the members of one channel, or of all of them, keeps the bounds.\<close>

lemma channel_ok_members:
  "channel_ok c \<Longrightarrow> hm_ok ms \<Longrightarrow> length ms \<le> MAX_MEMBERS \<Longrightarrow> hm_all member_ok ms \<Longrightarrow>
    channel_ok (c\<lparr>c_members := ms\<rparr>)"
  by (simp add: channel_ok_def)

lemma session_ok_channels:
  "session_ok s \<Longrightarrow> hm_ok cs \<Longrightarrow> length cs \<le> MAX_CHANNELS \<Longrightarrow> hm_all channel_ok cs \<Longrightarrow>
    session_ok (s\<lparr>s_channels := cs\<rparr>)"
  by (simp add: session_ok_def)

lemma session_ok_modify:
  "session_ok s \<Longrightarrow> (\<And>c. channel_ok c \<Longrightarrow> channel_ok (f c)) \<Longrightarrow>
    session_ok (s\<lparr>s_channels := hm_modify k f (s_channels s)\<rparr>)"
  by (simp add: session_ok_def keys_modify length_modify hm_all_modify)

lemma session_ok_map:
  "session_ok s \<Longrightarrow> (\<And>c. channel_ok c \<Longrightarrow> channel_ok (f c)) \<Longrightarrow>
    session_ok (s\<lparr>s_channels := map (\<lambda>(k, c). (k, f c)) (s_channels s)\<rparr>)"
  by (simp add: session_ok_def keys_map_values hm_all_map del: map_map)

lemma channel_ok_insert:
  assumes "channel_ok c" "member_ok m" "length (c_members c) < MAX_MEMBERS \<or> hm_has (c_members c) k"
  shows "channel_ok (c\<lparr>c_members := hm_insert k m (c_members c)\<rparr>)"
  using assms hm.bounded_ins [of "c_members c" MAX_MEMBERS k m]
  by (intro channel_ok_members) (auto simp: channel_ok_def AList.distinct_update hm_all_insert)

lemma channel_ok_remove:
  "channel_ok c \<Longrightarrow> channel_ok (c\<lparr>c_members := hm_remove k (c_members c)\<rparr>)"
  using hm.bounded_del [of "c_members c" MAX_MEMBERS k]
  by (intro channel_ok_members) (auto simp: channel_ok_def AList.distinct_delete hm_all_remove)

lemma rename_in_ok:
  assumes "channel_ok c" "length display \<le> MAX_NICK"
  shows "channel_ok (rename_in old new display c)"
proof (cases "hm_get (c_members c) old")
  case None
  with assms show ?thesis by (simp add: rename_in_def)
next
  case (Some m)
  have "member_ok m" using assms Some by (auto simp: channel_ok_def dest: hm_all_get)
  with assms(2) have "member_ok (m\<lparr>m_nick := display\<rparr>)" by (simp add: member_ok_def)
  with Some assms(1) hm.len_move [of "c_members c" old new "m\<lparr>m_nick := display\<rparr>"]
  show ?thesis
    unfolding rename_in_def
    by (auto intro!: channel_ok_members simp: channel_ok_def hm.ok_move hm_all_insert hm_all_remove)
qed

lemma insert_all_ok:
  "sorted held \<and> distinct held \<Longrightarrow> sorted (insert_all ps held) \<and> distinct (insert_all ps held)"
  by (induction ps held rule: insert_all.induct)
    (auto simp: sorted_insort_insert distinct_insort_insert)

lemma set_insert_all: "set (insert_all ps held) = set ps \<union> set held"
  by (induction ps held rule: insert_all.induct) (auto simp: set_insort_insert)

lemma names_loop_ok:
  assumes "hm_ok ms" "length ms \<le> MAX_MEMBERS" "hm_all member_ok ms"
  shows "hm_ok (names_loop mp ps entries ms) \<and> length (names_loop mp ps entries ms) \<le> MAX_MEMBERS
    \<and> hm_all member_ok (names_loop mp ps entries ms)"
  using assms
proof (induction mp ps entries ms rule: names_loop.induct)
  case (2 mp ps entry entries members)
  obtain found nick where sp: "split_prefixes ps entry = (found, nick)" by fastforce
  show ?case
  proof (cases "length members \<ge> MAX_MEMBERS \<or> nick = []")
    case True
    with 2 sp show ?thesis by auto
  next
    case False
    let ?key = "normalize_name mp nick"
    let ?m = "case hm_get members ?key of Some m \<Rightarrow> m | None \<Rightarrow> new_member nick"
    let ?ms = "hm_insert ?key (?m\<lparr>m_prefixes := insert_all found (m_prefixes ?m)\<rparr>) members"
    have "member_ok ?m" using 2 by (auto split: option.splits dest: hm_all_get)
    then have "member_ok (?m\<lparr>m_prefixes := insert_all found (m_prefixes ?m)\<rparr>)"
      using insert_all_ok [of "m_prefixes ?m" found] by (simp add: member_ok_def)
    then have "hm_ok ?ms" "hm_all member_ok ?ms" "length ?ms \<le> MAX_MEMBERS"
      using 2 False hm.bounded_ins [of members MAX_MEMBERS ?key]
      by (auto simp: AList.distinct_update hm_all_insert)
    with 2(2) [OF _ sp [symmetric] refl _ refl refl] False sp show ?thesis
      by (simp add: Let_def)
  qed
qed simp

lemma names_into_ok: "channel_ok c \<Longrightarrow> channel_ok (names_into mp ps names c)"
  unfolding names_into_def Let_def
  using names_loop_ok [of "c_members c" mp ps] names_loop_ok [of "[]" mp ps]
  by (auto simp: channel_ok_def)

lemma set_privilege_ok: "member_ok m \<Longrightarrow> member_ok (set_privilege adding pfx m)"
  by (auto simp: member_ok_def set_privilege_def sorted_insort_insert distinct_insort_insert
      removeAll_filter_not_eq sorted_wrt_filter)

lemma mode_loop_ok:
  assumes "mode_loop mp ps cm adding modes params ms changed = (changed', ms')"
    "hm_ok ms" "length ms \<le> MAX_MEMBERS" "hm_all member_ok ms"
  shows "hm_ok ms' \<and> length ms' \<le> MAX_MEMBERS \<and> hm_all member_ok ms'"
  using assms
  by (induction mp ps cm adding modes params ms changed rule: mode_loop.induct)
    (simp_all add: keys_modify length_modify hm_all_modify set_privilege_ok
      split: if_splits list.splits option.splits)

text \<open>Every operation keeps the bounds.\<close>

lemma set_nick_ok: "session_ok s \<Longrightarrow> session_ok (set_nick nick s)"
  by (simp add: session_ok_def set_nick_def truncate_chars_def)

lemma rekey_channel_ok: "channel_ok c \<Longrightarrow> channel_ok (rekey_channel mp c)"
  unfolding rekey_channel_def
proof (rule channel_ok_members)
  let ?ps = "map (\<lambda>m. (normalize_name mp (m_nick m), m)) (hm_values (c_members c))"
  assume c: "channel_ok c"
  show "hm_ok (collect_map ?ps)" by (rule collect_map_ok)
  show "length (collect_map ?ps) \<le> MAX_MEMBERS"
    using collect_map_length [of ?ps] c by (simp add: channel_ok_def)
  show "hm_all member_ok (collect_map ?ps)"
  proof (rule collect_map_all)
    fix k v assume "(k, v) \<in> set ?ps"
    moreover have "\<forall>m \<in> set (hm_values (c_members c)). member_ok m"
      using c by (simp add: channel_ok_def hm_all_values)
    ultimately show "member_ok v" by auto
  qed
qed

lemma rekey_ok: "session_ok s \<Longrightarrow> session_ok (rekey s)"
  unfolding rekey_def Let_def
proof (rule session_ok_channels)
  let ?mp = "casemapping (s_isupport s)"
  let ?ps = "map (\<lambda>c. (normalize_name ?mp (c_name c), rekey_channel ?mp c)) (hm_values (s_channels s))"
  assume s: "session_ok s"
  show "hm_ok (collect_map ?ps)" by (rule collect_map_ok)
  show "length (collect_map ?ps) \<le> MAX_CHANNELS"
    using collect_map_length [of ?ps] s by (simp add: session_ok_def)
  show "hm_all channel_ok (collect_map ?ps)"
  proof (rule collect_map_all)
    fix k v assume "(k, v) \<in> set ?ps"
    moreover have "\<forall>c \<in> set (hm_values (s_channels s)). channel_ok c"
      using s by (simp add: session_ok_def hm_all_values)
    ultimately show "channel_ok v" by (auto intro: rekey_channel_ok)
  qed
qed

lemma on_isupport_ok: "session_ok s \<Longrightarrow> session_ok (on_isupport tokens s)"
  using rekey_ok [of "s\<lparr>s_isupport := isupport_apply tokens (s_isupport s)\<rparr>"]
  by (simp add: on_isupport_def Let_def session_ok_def)

lemma session_ok_insert_new:
  "session_ok s \<Longrightarrow> length (s_channels s) < MAX_CHANNELS \<Longrightarrow>
    session_ok (s\<lparr>s_channels := hm_insert k (new_channel name) (s_channels s)\<rparr>)"
  by (rule session_ok_channels)
    (auto simp: session_ok_def AList.distinct_update hm_all_insert length_alist_update)

lemma on_join_ok:
  assumes "session_ok s"
  shows "session_ok (snd (on_join channel nick s))"
proof -
  let ?key = "s_norm s channel" and ?mk = "s_norm s nick"
  have step: "session_ok (s'\<lparr>s_channels := hm_modify ?key
        (\<lambda>c. c\<lparr>c_members := hm_insert ?mk (new_member nick) (c_members c)\<rparr>) (s_channels s')\<rparr>)"
    if s': "session_ok s'" and get: "hm_get (s_channels s') ?key = Some chan"
      and room: "\<not> (length (c_members chan) \<ge> MAX_MEMBERS \<and> \<not> hm_has (c_members chan) ?mk)"
    for s' chan
  proof (rule session_ok_channels [OF s'])
    let ?f = "\<lambda>c. c\<lparr>c_members := hm_insert ?mk (new_member nick) (c_members c)\<rparr>"
    have "channel_ok chan" using s' get by (auto simp: session_ok_def dest: hm_all_get)
    then have "channel_ok (?f chan)" using room by (intro channel_ok_insert) auto
    then show "hm_all channel_ok (hm_modify ?key ?f (s_channels s'))"
      using s' get by (intro hm_all_modify_at) (auto simp: session_ok_def)
  qed (use s' in \<open>simp_all add: session_ok_def keys_modify length_modify\<close>)
  show ?thesis
  proof (cases "hm_has (s_channels s) ?key")
    case True
    then obtain chan where "hm_get (s_channels s) ?key = Some chan" by auto
    with assms step [of s chan] show ?thesis by (simp add: on_join_def Let_def)
  next
    case False
    show ?thesis
    proof (cases "\<not> is_self s nick \<or> length (s_channels s) \<ge> MAX_CHANNELS")
      case True
      with False assms show ?thesis by (simp add: on_join_def)
    next
      case room: False
      let ?s' = "s\<lparr>s_channels := hm_insert ?key (new_channel channel) (s_channels s)\<rparr>"
      have "session_ok ?s'" using assms room by (intro session_ok_insert_new) auto
      with False room step [of ?s' "new_channel channel"] show ?thesis
        by (simp add: on_join_def Let_def AList.update_conv')
    qed
  qed
qed

lemma on_part_ok: "session_ok s \<Longrightarrow> session_ok (snd (on_part channel nick s))"
  unfolding on_part_def Let_def
  by (auto intro!: session_ok_modify channel_ok_remove split: option.splits)
    (auto simp: session_ok_def AList.distinct_delete hm_all_remove hm.bounded_del)

lemma on_quit_ok: "session_ok s \<Longrightarrow> session_ok (snd (on_quit nick s))"
  unfolding on_quit_def Let_def
  by (auto intro!: session_ok_map channel_ok_remove) (simp add: session_ok_def)

lemma on_nick_change_ok: "session_ok s \<Longrightarrow> session_ok (snd (on_nick_change old new s))"
  unfolding on_nick_change_def Let_def
  by (auto intro!: session_ok_map rename_in_ok set_nick_ok simp: truncate_chars_def)

lemma on_names_reply_ok: "session_ok s \<Longrightarrow> session_ok (on_names_reply channel names s)"
  unfolding on_names_reply_def Let_def
  using session_ok_modify [OF session_ok_insert_new names_into_ok, of s]
  by (auto intro!: session_ok_modify names_into_ok)

lemma on_end_of_names_ok: "session_ok s \<Longrightarrow> session_ok (on_end_of_names channel s)"
  unfolding on_end_of_names_def by (rule session_ok_modify) (simp_all add: channel_ok_def)

lemma on_topic_ok: "session_ok s \<Longrightarrow> session_ok (on_topic channel topic s)"
  unfolding on_topic_def
  by (rule session_ok_modify) (simp_all add: channel_ok_def truncate_chars_def)

lemma on_mode_ok:
  assumes "session_ok s"
  shows "session_ok (snd (on_mode channel modes params s))"
proof (cases "hm_get (s_channels s) (s_norm s channel)")
  case None
  with assms show ?thesis by (simp add: on_mode_def)
next
  case (Some chan)
  then have c: "channel_ok chan" using assms by (auto simp: session_ok_def dest: hm_all_get)
  obtain changed ms where loop: "mode_loop (casemapping (s_isupport s)) (prefixes_of (s_isupport s))
      (chanmodes (s_isupport s)) True modes params (c_members chan) [] = (changed, ms)" by fastforce
  have "channel_ok (chan\<lparr>c_members := ms\<rparr>)"
    using mode_loop_ok [OF loop] c by (intro channel_ok_members) (auto simp: channel_ok_def)
  with Some loop assms show ?thesis
    by (auto intro!: session_ok_channels hm_all_insert simp: on_mode_def session_ok_def
        AList.distinct_update length_alist_update)
qed

lemma set_away_ok: "session_ok s \<Longrightarrow> session_ok (snd (set_away nick away s))"
  unfolding set_away_def Let_def
  by (auto intro!: session_ok_map channel_ok_members hm_all_modify
      simp: keys_modify length_modify member_ok_def) (auto simp: channel_ok_def)

text \<open>Everything a server can make a session do, as one line of events.\<close>

datatype session_event =
    SvIsupport "ustring list"
  | SvJoin ustring ustring
  | SvPart ustring ustring
  | SvQuit ustring
  | SvNick ustring ustring
  | SvNames ustring ustring
  | SvEndOfNames ustring
  | SvTopic ustring ustring
  | SvMode ustring ustring "ustring list"
  | SvAway ustring bool
  | SvSetNick ustring

fun session_step :: "session_event \<Rightarrow> session \<Rightarrow> session" where
  "session_step (SvIsupport tokens) s = on_isupport tokens s"
| "session_step (SvJoin channel nick) s = snd (on_join channel nick s)"
| "session_step (SvPart channel nick) s = snd (on_part channel nick s)"
| "session_step (SvQuit nick) s = snd (on_quit nick s)"
| "session_step (SvNick old new) s = snd (on_nick_change old new s)"
| "session_step (SvNames channel names) s = on_names_reply channel names s"
| "session_step (SvEndOfNames channel) s = on_end_of_names channel s"
| "session_step (SvTopic channel topic) s = on_topic channel topic s"
| "session_step (SvMode channel modes params) s = snd (on_mode channel modes params s)"
| "session_step (SvAway nick away) s = snd (set_away nick away s)"
| "session_step (SvSetNick nick) s = set_nick nick s"

fun session_run :: "session_event list \<Rightarrow> session \<Rightarrow> session" where
  "session_run [] s = s"
| "session_run (e # es) s = session_run es (session_step e s)"

lemmas session_ops_ok = set_nick_ok on_isupport_ok on_join_ok on_part_ok on_quit_ok on_nick_change_ok
  on_names_reply_ok on_end_of_names_ok on_topic_ok on_mode_ok set_away_ok

lemma session_step_ok: "session_ok s \<Longrightarrow> session_ok (session_step e s)"
  by (cases e) (simp_all add: session_ops_ok)

lemma session_run_ok: "session_ok s \<Longrightarrow> session_ok (session_run es s)"
  by (induction es arbitrary: s) (simp_all add: session_step_ok)

section \<open>Alignment of mode parameters\<close>

text \<open>
  The reference reading of a \<open>MODE\<close> line: the mode letters with their direction, of which the ones
  that take an argument receive the arguments in order.
\<close>

fun mode_dirs :: "bool \<Rightarrow> ustring \<Rightarrow> (bool \<times> uchar) list" where
  "mode_dirs adding [] = []"
| "mode_dirs adding (m # ms) =
     (if m = ch (CHR ''+'') then mode_dirs True ms
      else if m = ch (CHR ''-'') then mode_dirs False ms
      else (adding, m) # mode_dirs adding ms)"

definition takes_arg :: "prefixes \<Rightarrow> chan_modes \<Rightarrow> bool \<times> uchar \<Rightarrow> bool" where
  "takes_arg ps cm = (\<lambda>(adding, m). is_prefix_mode ps m \<or> takes_parameter cm m adding)"

definition align_modes ::
  "prefixes \<Rightarrow> chan_modes \<Rightarrow> bool \<Rightarrow> ustring \<Rightarrow> ustring list \<Rightarrow> ((bool \<times> uchar) \<times> ustring) list" where
  "align_modes ps cm adding modes params = zip (filter (takes_arg ps cm) (mode_dirs adding modes)) params"

definition apply_mode ::
  "case_mapping \<Rightarrow> prefixes \<Rightarrow> (ustring, member) hmap \<Rightarrow> (bool \<times> uchar) \<times> ustring \<Rightarrow> (ustring, member) hmap" where
  "apply_mode mp ps ms = (\<lambda>((adding, m), target).
     case prefix_for_mode ps m of
       None \<Rightarrow> ms
     | Some pfx \<Rightarrow> hm_modify (normalize_name mp target) (set_privilege adding pfx) ms)"

lemma mode_loop_aligned:
  "snd (mode_loop mp ps cm adding modes params ms changed)
     = foldl (apply_mode mp ps) ms (align_modes ps cm adding modes params)"
proof (induction mp ps cm adding modes params ms changed rule: mode_loop.induct)
  case (1 mp ps cm adding params ms changed)
  then show ?case by (simp add: align_modes_def)
next
  case (2 mp ps cm adding mode modes params ms changed)
  show ?case
  proof (cases "mode = ch (CHR ''+'') \<or> mode = ch (CHR ''-'')")
    case True
    with 2(1,2) show ?thesis by (auto simp: align_modes_def)
  next
    case plain: False
    show ?thesis
    proof (cases "is_prefix_mode ps mode")
      case True
      then obtain pfx where pfx: "prefix_for_mode ps mode = Some pfx"
        by (auto simp: prefix_for_mode_iff)
      with True plain 2(4,5) show ?thesis
        by (cases params; cases "hm_get ms (normalize_name mp (hd params))")
          (auto simp: align_modes_def takes_arg_def apply_mode_def modify_absent)
    next
      case False
      then have "prefix_for_mode ps mode = None" by (simp add: prefix_for_mode_iff)
      with False plain 2(6,7) show ?thesis
        by (cases params; cases "takes_parameter cm mode adding")
          (auto simp: align_modes_def takes_arg_def apply_mode_def)
    qed
  qed
qed

section \<open>Keys are canonical\<close>

text \<open>
  Every key is its own normal form under the case mapping in force, so that looking a name up under
  any spelling of it reaches the one entry there is. A change of the case mapping rebuilds the keys.
\<close>

definition canonical :: "case_mapping \<Rightarrow> ustring \<Rightarrow> bool" where
  "canonical mp k \<longleftrightarrow> normalize_name mp k = k"

definition channel_keys_ok :: "case_mapping \<Rightarrow> channel \<Rightarrow> bool" where
  "channel_keys_ok mp c \<longleftrightarrow> hm_keys_all (canonical mp) (c_members c)"

definition session_keys_ok :: "session \<Rightarrow> bool" where
  "session_keys_ok s \<longleftrightarrow> hm_keys_all (canonical (casemapping (s_isupport s))) (s_channels s)
     \<and> hm_all (channel_keys_ok (casemapping (s_isupport s))) (s_channels s)"

lemma canonical_normalize [simp]: "canonical mp (normalize_name mp s)"
  by (simp add: canonical_def)

lemma canonical_s_norm [simp]: "canonical (casemapping (s_isupport s)) (s_norm s name)"
  by (simp add: s_norm_def)

lemma new_channel_keys [simp]: "channel_keys_ok mp (new_channel name)"
  by (simp add: channel_keys_ok_def new_channel_def)

lemma session_keys_channels:
  "hm_keys_all (canonical (casemapping (s_isupport s))) m \<Longrightarrow>
   hm_all (channel_keys_ok (casemapping (s_isupport s))) m \<Longrightarrow> session_keys_ok (s\<lparr>s_channels := m\<rparr>)"
  by (simp add: session_keys_ok_def)

lemma session_keysD:
  assumes "session_keys_ok s"
  shows "hm_keys_all (canonical (casemapping (s_isupport s))) (s_channels s)"
    and "hm_all (channel_keys_ok (casemapping (s_isupport s))) (s_channels s)"
  using assms by (simp_all add: session_keys_ok_def)

lemma session_keys_modify:
  "session_keys_ok s \<Longrightarrow>
   (\<And>c. channel_keys_ok (casemapping (s_isupport s)) c \<Longrightarrow> channel_keys_ok (casemapping (s_isupport s)) (f c)) \<Longrightarrow>
    session_keys_ok (s\<lparr>s_channels := hm_modify k f (s_channels s)\<rparr>)"
  by (simp add: session_keys_ok_def hm_keys_all_modify hm_all_modify)

lemma session_keys_modify_new:
  "session_keys_ok s \<Longrightarrow>
   (\<And>c. channel_keys_ok (casemapping (s_isupport s)) c \<Longrightarrow> channel_keys_ok (casemapping (s_isupport s)) (f c)) \<Longrightarrow>
    session_keys_ok (s\<lparr>s_channels := hm_modify k f
      (hm_insert (s_norm s channel) (new_channel name) (s_channels s))\<rparr>)"
  by (simp add: session_keys_ok_def hm_keys_all_modify hm_all_modify hm_keys_all_insert hm_all_insert)

lemma session_keys_insert_new:
  "session_keys_ok s \<Longrightarrow>
    session_keys_ok (s\<lparr>s_channels := hm_insert (s_norm s channel) (new_channel name) (s_channels s)\<rparr>)"
  by (simp add: session_keys_ok_def hm_keys_all_insert hm_all_insert)

lemma session_keys_map:
  "session_keys_ok s \<Longrightarrow>
   (\<And>c. channel_keys_ok (casemapping (s_isupport s)) c \<Longrightarrow> channel_keys_ok (casemapping (s_isupport s)) (f c)) \<Longrightarrow>
    session_keys_ok (s\<lparr>s_channels := map (\<lambda>(k, c). (k, f c)) (s_channels s)\<rparr>)"
  by (simp add: session_keys_ok_def hm_keys_all_map hm_all_map)

lemma channel_keys_insert:
  "channel_keys_ok mp c \<Longrightarrow> canonical mp k \<Longrightarrow> channel_keys_ok mp (c\<lparr>c_members := hm_insert k m (c_members c)\<rparr>)"
  by (simp add: channel_keys_ok_def hm_keys_all_insert)

lemma channel_keys_remove:
  "channel_keys_ok mp c \<Longrightarrow> channel_keys_ok mp (c\<lparr>c_members := hm_remove k (c_members c)\<rparr>)"
  by (simp add: channel_keys_ok_def hm_keys_all_remove)

lemma rekey_keys: "session_keys_ok (rekey s)"
proof -
  let ?mp = "casemapping (s_isupport s)"
  have "channel_keys_ok ?mp (rekey_channel ?mp c)" for c
    by (auto simp: channel_keys_ok_def rekey_channel_def intro!: hm_keys_all_collect)
  then show ?thesis
    by (auto simp: session_keys_ok_def rekey_def Let_def intro!: hm_keys_all_collect collect_map_all)
qed

lemma on_isupport_keys: "session_keys_ok s \<Longrightarrow> session_keys_ok (on_isupport tokens s)"
  using rekey_keys [of "s\<lparr>s_isupport := isupport_apply tokens (s_isupport s)\<rparr>"]
  by (simp add: on_isupport_def Let_def session_keys_ok_def)

lemma on_join_keys: "session_keys_ok s \<Longrightarrow> session_keys_ok (snd (on_join channel nick s))"
  unfolding on_join_def Let_def
  by (auto intro!: session_keys_modify session_keys_modify_new channel_keys_insert session_keys_insert_new
      split: option.splits)

lemma on_part_keys: "session_keys_ok s \<Longrightarrow> session_keys_ok (snd (on_part channel nick s))"
proof (cases "is_self s nick")
  case True
  assume "session_keys_ok s"
  with True show ?thesis
    by (simp add: on_part_def Let_def session_keys_ok_def hm_keys_all_remove hm_all_remove)
qed (auto simp: on_part_def Let_def intro!: session_keys_modify channel_keys_remove split: option.splits)

lemma on_quit_keys: "session_keys_ok s \<Longrightarrow> session_keys_ok (snd (on_quit nick s))"
proof (cases "is_self s nick")
  case False
  assume "session_keys_ok s"
  then have "session_keys_ok (s\<lparr>s_channels := map (\<lambda>(k, c). (k,
      if hm_has (c_members c) (s_norm s nick)
      then c\<lparr>c_members := hm_remove (s_norm s nick) (c_members c)\<rparr> else c)) (s_channels s)\<rparr>)"
    by (rule session_keys_map) (simp add: channel_keys_remove)
  with False show ?thesis by (simp add: on_quit_def Let_def)
qed (simp add: on_quit_def session_keys_ok_def)

lemma rename_in_keys:
  "channel_keys_ok mp c \<Longrightarrow> canonical mp new \<Longrightarrow> channel_keys_ok mp (rename_in old new display c)"
  by (simp add: rename_in_def channel_keys_ok_def hm_keys_all_insert hm_keys_all_remove split: option.splits)

lemma on_nick_change_keys:
  assumes "session_keys_ok s"
  shows "session_keys_ok (snd (on_nick_change old new s))"
proof -
  define s1 where "s1 = (if is_self s old then set_nick new s else s)"
  have "session_keys_ok s1" using assms by (simp add: s1_def set_nick_def session_keys_ok_def)
  then have "session_keys_ok (s1\<lparr>s_channels := map (\<lambda>(k, c). (k, rename_in (s_norm s1 old) (s_norm s1 new)
      (truncate_chars new MAX_NICK) c)) (s_channels s1)\<rparr>)"
    by (rule session_keys_map) (simp add: rename_in_keys)
  then show ?thesis by (simp add: on_nick_change_def Let_def s1_def)
qed

lemma names_loop_keys:
  "hm_keys_all (canonical mp) ms \<Longrightarrow> hm_keys_all (canonical mp) (names_loop mp ps entries ms)"
  by (induction mp ps entries ms rule: names_loop.induct)
    (auto simp: Let_def hm_keys_all_insert split: prod.splits)

lemma names_into_keys: "channel_keys_ok mp c \<Longrightarrow> channel_keys_ok mp (names_into mp ps names c)"
  by (simp add: names_into_def channel_keys_ok_def Let_def names_loop_keys)

lemma on_names_reply_keys: "session_keys_ok s \<Longrightarrow> session_keys_ok (on_names_reply channel names s)"
  unfolding on_names_reply_def Let_def
  by (auto intro!: session_keys_modify session_keys_modify_new names_into_keys)

lemma mode_loop_keys:
  "map fst (snd (mode_loop mp ps cm adding modes params ms changed)) = map fst ms"
  unfolding mode_loop_aligned
proof (induction "align_modes ps cm adding modes params" arbitrary: ms adding modes params)
  case (Cons x xs)
  have "map fst (foldl (apply_mode mp ps) ms ys) = map fst ms" for ys ms
    by (induction ys arbitrary: ms) (auto simp: apply_mode_def keys_modify split: option.splits)
  then show ?case .
qed simp

lemma on_mode_keys: "session_keys_ok s \<Longrightarrow> session_keys_ok (snd (on_mode channel modes params s))"
proof (cases "hm_get (s_channels s) (s_norm s channel)")
  case (Some chan)
  assume s: "session_keys_ok s"
  obtain changed ms where loop: "mode_loop (casemapping (s_isupport s)) (prefixes_of (s_isupport s))
      (chanmodes (s_isupport s)) True modes params (c_members chan) [] = (changed, ms)" by fastforce
  have "map fst ms = map fst (c_members chan)"
    using mode_loop_keys loop by (metis snd_conv)
  moreover have "channel_keys_ok (casemapping (s_isupport s)) chan"
    using s Some by (auto simp: session_keys_ok_def dest: hm_all_get)
  ultimately have "channel_keys_ok (casemapping (s_isupport s)) (chan\<lparr>c_members := ms\<rparr>)"
    by (simp add: channel_keys_ok_def hm_keys_all_def)
  with s Some loop show ?thesis
    by (simp add: on_mode_def session_keys_ok_def hm_keys_all_insert hm_all_insert)
qed (simp add: on_mode_def)

lemma set_away_keys: "session_keys_ok s \<Longrightarrow> session_keys_ok (snd (set_away nick away s))"
  unfolding set_away_def Let_def
  by (auto intro!: session_keys_map simp: channel_keys_ok_def hm_keys_all_modify)

lemma on_end_of_names_keys: "session_keys_ok s \<Longrightarrow> session_keys_ok (on_end_of_names channel s)"
  unfolding on_end_of_names_def by (rule session_keys_modify) (simp_all add: channel_keys_ok_def)

lemma on_topic_keys: "session_keys_ok s \<Longrightarrow> session_keys_ok (on_topic channel topic s)"
  unfolding on_topic_def by (rule session_keys_modify) (simp_all add: channel_keys_ok_def)

lemma set_nick_keys: "session_keys_ok s \<Longrightarrow> session_keys_ok (set_nick nick s)"
  by (simp add: session_keys_ok_def set_nick_def)

lemmas session_ops_keys = set_nick_keys on_isupport_keys on_join_keys on_part_keys on_quit_keys on_nick_change_keys
  on_names_reply_keys on_end_of_names_keys on_topic_keys on_mode_keys set_away_keys

lemma session_step_keys: "session_keys_ok s \<Longrightarrow> session_keys_ok (session_step e s)"
  by (cases e) (simp_all add: session_ops_keys)

lemma session_run_keys: "session_keys_ok s \<Longrightarrow> session_keys_ok (session_run es s)"
  by (induction es arbitrary: s) (simp_all add: session_step_keys)

lemma new_session_keys: "session_keys_ok (new_session nick)"
  by (simp add: session_keys_ok_def new_session_def)

section \<open>Effects on the roster\<close>

lemma on_nick_change_isupport [simp]:
  "s_isupport (snd (on_nick_change old new s)) = s_isupport s"
  by (simp add: on_nick_change_def set_nick_def Let_def)

lemma on_nick_change_channel:
  "hm_get (s_channels (snd (on_nick_change old new s))) k =
     map_option (rename_in (s_norm s old) (s_norm s new) (truncate_chars new MAX_NICK)) (hm_get (s_channels s) k)"
proof -
  have "s_norm (if is_self s old then set_nick new s else s) = s_norm s"
    by (simp add: s_norm_def set_nick_def fun_eq_iff)
  moreover have "s_channels (if is_self s old then set_nick new s else s) = s_channels s"
    by (simp add: set_nick_def)
  ultimately show ?thesis
    by (simp add: on_nick_change_def Let_def map_of_map_values)
qed

lemma rename_in_member:
  "hm_get (c_members c) old = Some m \<Longrightarrow>
     hm_get (c_members (rename_in old new display c)) k =
       (if k = new then Some (m\<lparr>m_nick := display\<rparr>) else if k = old then None else hm_get (c_members c) k)"
  by (simp add: rename_in_def AList.update_conv' AList.delete_conv')

lemma on_quit_channel:
  "\<not> is_self s nick \<Longrightarrow> hm_get (s_channels (snd (on_quit nick s))) k =
     map_option (\<lambda>c. if hm_has (c_members c) (s_norm s nick)
                       then c\<lparr>c_members := hm_remove (s_norm s nick) (c_members c)\<rparr> else c)
       (hm_get (s_channels s) k)"
  by (simp add: on_quit_def Let_def map_of_map_values)

lemma mention_iff:
  assumes "s_nick s \<noteq> []" "\<And>c. c \<in> set (s_norm s (s_nick s)) \<Longrightarrow> session_nick_char alnum c"
  shows "is_mention alnum s line \<longleftrightarrow>
    (\<exists>pre post. s_norm s line = pre @ s_norm s (s_nick s) @ post
       \<and> (pre = [] \<or> \<not> session_nick_char alnum (last pre))
       \<and> (post = [] \<or> \<not> session_nick_char alnum (hd post)))"
  using assms whole_word_iff [of "s_norm s (s_nick s)" "session_nick_char alnum" "s_norm s line"]
  by (simp add: is_mention_def Let_def s_norm_def)

section \<open>The sort key\<close>

lemma hex_digit_less: "a < 16 \<Longrightarrow> b < 16 \<Longrightarrow> hex_digit a < hex_digit b \<longleftrightarrow> a < b"
  by (auto simp: hex_digit_def)

lemma hex_digit_eq: "a < 16 \<Longrightarrow> b < 16 \<Longrightarrow> hex_digit a = hex_digit b \<longleftrightarrow> a = b"
  by (auto simp: hex_digit_def split: if_splits)

lemma length_hex4 [simp]: "length (hex4 r) = 4"
  by (simp add: hex4_def)

lemma hex4_digits:
  fixes r :: nat
  assumes "r < 65536"
  shows "4096 * (r div 4096 mod 16) + 256 * (r div 256 mod 16) + 16 * (r div 16 mod 16) + r mod 16 = r"
proof -
  have "r div 4096 mod 16 = r div 4096" using assms by simp
  moreover have "r div 256 = 16 * (r div 4096) + r div 256 mod 16"
    using div_mult_mod_eq [of "r div 256" 16] by (simp add: div_mult2_eq [symmetric])
  moreover have "r div 16 = 16 * (r div 256) + r div 16 mod 16"
    using div_mult_mod_eq [of "r div 16" 16] by (simp add: div_mult2_eq [symmetric])
  moreover have "r = 16 * (r div 16) + r mod 16" by simp
  ultimately show ?thesis by linarith
qed

lemma hex4_eq: "hex4 r = [hex_digit (r div 4096 mod 16), hex_digit (r div 256 mod 16),
    hex_digit (r div 16 mod 16), hex_digit (r mod 16)]"
  by (simp add: hex4_def)

lemma hex4_inj: "a < 65536 \<Longrightarrow> b < 65536 \<Longrightarrow> hex4 a = hex4 b \<Longrightarrow> a = b"
  using hex4_digits [of a] hex4_digits [of b] by (auto simp: hex4_eq hex_digit_eq)

lemma digits_less:
  assumes "4096 * a3 + 256 * a2 + 16 * a1 + a0 < 4096 * b3 + 256 * b2 + 16 * b1 + (b0 :: nat)"
    and "a2 < 16" "a1 < 16" "a0 < 16" "b2 < 16" "b1 < 16" "b0 < 16"
  shows "a3 < b3 \<or> a3 = b3 \<and> (a2 < b2 \<or> a2 = b2 \<and> (a1 < b1 \<or> a1 = b1 \<and> a0 < b0))"
proof -
  have "a3 \<le> b3" using assms by linarith
  moreover have "a3 = b3 \<Longrightarrow> a2 \<le> b2" using assms by linarith
  moreover have "a3 = b3 \<Longrightarrow> a2 = b2 \<Longrightarrow> a1 \<le> b1" using assms by linarith
  moreover have "a3 = b3 \<Longrightarrow> a2 = b2 \<Longrightarrow> a1 = b1 \<Longrightarrow> a0 < b0" using assms by linarith
  ultimately show ?thesis by (meson le_neq_implies_less)
qed

lemma hex_digits_less:
  assumes "a3 < b3 \<or> a3 = b3 \<and> (a2 < b2 \<or> a2 = b2 \<and> (a1 < b1 \<or> a1 = b1 \<and> a0 < b0))"
    and "a3 < 16" "b3 < 16" "a2 < 16" "b2 < 16" "a1 < 16" "b1 < 16" "a0 < 16" "b0 < 16"
  shows "[hex_digit a3, hex_digit a2, hex_digit a1, hex_digit a0]
    < [hex_digit b3, hex_digit b2, hex_digit b1, hex_digit b0]"
  using assms by (auto simp: hex_digit_less)

lemma hex4_less:
  assumes "a < b" "b < 65536"
  shows "hex4 a < hex4 b"
proof -
  have "4096 * (a div 4096 mod 16) + 256 * (a div 256 mod 16) + 16 * (a div 16 mod 16) + a mod 16
      < 4096 * (b div 4096 mod 16) + 256 * (b div 256 mod 16) + 16 * (b div 16 mod 16) + b mod 16"
    using assms by (simp only: hex4_digits order_less_trans [OF assms])
  then show ?thesis
    unfolding hex4_eq by (rule hex_digits_less [OF digits_less]) (rule mod_less_divisor, simp)+
qed

lemma append_less_same_length:
  fixes x y :: "'a::linorder list"
  assumes "length x = length y"
  shows "x @ u < y @ v \<longleftrightarrow> x < y \<or> x = y \<and> u < v"
  using assms by (induction x y rule: list_induct2) auto

lemma display_rank_bound: "display_rank ps m < 65536"
  by (simp add: display_rank_def)

lemma hex4_less_iff:
  assumes "a < 65536" "b < 65536"
  shows "hex4 a < hex4 b \<longleftrightarrow> a < b"
proof
  assume less: "hex4 a < hex4 b"
  have "\<not> b < a" using hex4_less [OF _ assms(1)] less by (meson order.asym)
  moreover have "a \<noteq> b" using less by blast
  ultimately show "a < b" by (meson linorder_neqE_nat)
qed (rule hex4_less [OF _ assms(2)])

lemma hex4_eq_iff: "a < 65536 \<Longrightarrow> b < 65536 \<Longrightarrow> hex4 a = hex4 b \<longleftrightarrow> a = b"
  using hex4_inj by blast

lemma sort_key_order:
  fixes lower :: "uchar \<Rightarrow> ustring"
  shows "member_sort_key lower ps a < member_sort_key lower ps b \<longleftrightarrow>
     display_rank ps a < display_rank ps b
     \<or> display_rank ps a = display_rank ps b
       \<and> concat (map lower (m_nick a)) < concat (map lower (m_nick b))"
  unfolding member_sort_key_def
  by (subst append_less_same_length)
    (simp_all only: length_hex4 hex4_less_iff hex4_eq_iff display_rank_bound append_Cons append_Nil Cons_less_Cons
      order_less_irrefl refl simp_thms)

section \<open>Properties\<close>


text \<open>
  C11: After any sequence of messages every channel and every member is filed
  under the normal form of the case mapping in force, also when the server changes the mapping on
  the way, so a lookup under any spelling reaches the entry.
\<close>

theorem session_canonical: "session_keys_ok (session_run es (new_session nick))"
  by (rule session_run_keys [OF new_session_keys])

text \<open>
  C20: A MODE line changes the privileges exactly as pairing, from the left, the
  modes that take an argument with the arguments says: arguments of list, key and limit modes are
  passed over in step, and a line that runs out of arguments stops there.
\<close>

theorem on_mode_aligned:
  "hm_get (s_channels (snd (on_mode channel modes params s))) k =
     (if k = s_norm s channel
      then map_option (\<lambda>c. c\<lparr>c_members := foldl (apply_mode (casemapping (s_isupport s)) (prefixes_of (s_isupport s)))
             (c_members c) (align_modes (prefixes_of (s_isupport s)) (chanmodes (s_isupport s)) True modes params)\<rparr>)
             (hm_get (s_channels s) k)
      else hm_get (s_channels s) k)"
proof (cases "hm_get (s_channels s) (s_norm s channel)")
  case (Some chan)
  then show ?thesis
    by (simp add: on_mode_def Let_def AList.update_conv' mode_loop_aligned case_prod_unfold)
qed (simp add: on_mode_def)

text \<open>
  C34: When somebody renames themselves, each of their channels shows
  them under the new nick with the prefixes and the away mark they had, and the old nick is gone
  from it unless it is the same nick in another spelling.
\<close>

theorem nick_change_keeps_privileges:
  assumes "channel_of s channel = Some c" "hm_get (c_members c) (s_norm s old) = Some m"
  shows "\<exists>c'. channel_of (snd (on_nick_change old new s)) channel = Some c'
    \<and> hm_get (c_members c') (s_norm s new) = Some (m\<lparr>m_nick := truncate_chars new MAX_NICK\<rparr>)
    \<and> (same_nick s old new \<or> hm_get (c_members c') (s_norm s old) = None)"
  using assms
  by (auto simp: channel_of_def on_nick_change_channel s_norm_def same_nick_def case_eq_def rename_in_member)

definition example_session :: session where
  "example_session = session_run
     [SvJoin (U ''#rust'') (U ''bob''), SvNames (U ''#rust'') (U ''@Ann bob''), SvEndOfNames (U ''#rust'')]
     (new_session (U ''bob''))"

lemmas session_eval = example_session_def on_join_def on_names_reply_def on_end_of_names_def channel_of_def
  new_session_def s_norm_def is_self_def case_eq_def normalize_name_def fold_char_def ascii_lower_def
  default_isupport_def default_prefixes_def new_channel_def new_member_def truncate_chars_def
  MAX_CHANNELS_def MAX_MEMBERS_def MAX_NICK_def MAX_CHANNEL_NAME_def names_into_def split_prefixes_def
  is_prefix_char_def split_whitespace_def is_whitespace_def insort_insert_key_def

lemma example_session_eval:
  "channel_of example_session (U ''#RUST'') = Some \<lparr>c_name = U ''#rust'', c_topic = None,
     c_members = [(U ''ann'', \<lparr>m_nick = U ''Ann'', m_prefixes = U ''@'', m_away = False\<rparr>),
                  (U ''bob'', \<lparr>m_nick = U ''bob'', m_prefixes = [], m_away = False\<rparr>)],
     c_names_in_progress = False\<rparr>"
  by (simp add: session_eval Let_def)

theorem nick_change_keeps_privileges_witness:
  "\<exists>c'. channel_of (snd (on_nick_change (U ''ANN'') (U ''anna'') example_session)) (U ''#RUST'') = Some c'
    \<and> hm_get (c_members c') (s_norm example_session (U ''anna''))
        = Some \<lparr>m_nick = U ''anna'', m_prefixes = U ''@'', m_away = False\<rparr>"
proof -
  have "hm_get [(U ''ann'', \<lparr>m_nick = U ''Ann'', m_prefixes = U ''@'', m_away = False\<rparr>),
       (U ''bob'', \<lparr>m_nick = U ''bob'', m_prefixes = [], m_away = False\<rparr>)] (s_norm example_session (U ''ANN''))
     = Some \<lparr>m_nick = U ''Ann'', m_prefixes = U ''@'', m_away = False\<rparr>" by (simp add: session_eval Let_def)
  then show ?thesis
    using nick_change_keeps_privileges [OF example_session_eval, of "U ''ANN''" _ "U ''anna''"]
    by (auto simp: truncate_chars_def MAX_NICK_def)
qed

text \<open>
  C35: When somebody else quits they are a member of no channel any more, and
  every other membership is as it was.
\<close>

theorem quit_leaves_everywhere:
  assumes "\<not> is_self s nick"
  shows "channel_of (snd (on_quit nick s)) channel =
    map_option (\<lambda>c. c\<lparr>c_members := hm_remove (s_norm s nick) (c_members c)\<rparr>) (channel_of s channel)"
proof -
  have "s_norm (snd (on_quit nick s)) channel = s_norm s channel"
    by (simp add: on_quit_def s_norm_def Let_def)
  moreover have leave: "c = c\<lparr>c_members := hm_remove k (c_members c)\<rparr>" if "hm_get (c_members c) k = None" for k c
    using that by (cases c) (simp add: map_of_eq_None_iff AList.delete_id)
  ultimately show ?thesis
    using assms
    by (cases "hm_get (s_channels s) (s_norm s channel)") (auto simp: channel_of_def on_quit_channel intro: leave)
qed

theorem quit_leaves_everywhere_witness:
  "\<not> is_self example_session (U ''ann'')
   \<and> channel_of (snd (on_quit (U ''ann'') example_session)) (U ''#rust'') =
    map_option (\<lambda>c. c\<lparr>c_members := hm_remove (s_norm example_session (U ''ann'')) (c_members c)\<rparr>)
      (channel_of example_session (U ''#rust''))"
proof -
  have "\<not> is_self example_session (U ''ann'')" by (simp add: session_eval Let_def)
  then show ?thesis using quit_leaves_everywhere [of example_session "U ''ann''"] by simp
qed



text \<open>
  C39: The roster's string key orders members by rank first, most privileged first and
  unprivileged last, and within a rank by their lower-cased nick.
\<close>

theorem roster_order:
  fixes lower :: "uchar \<Rightarrow> ustring"
  shows "member_sort_key lower ps a < member_sort_key lower ps b \<longleftrightarrow>
     display_rank ps a < display_rank ps b
     \<or> display_rank ps a = display_rank ps b
       \<and> concat (map lower (m_nick a)) < concat (map lower (m_nick b))"
  by (rule sort_key_order)

end
