(* ===== verification/Irc_Proto.thy ===== *)
theory Irc_Proto
  imports Rust_Str
begin

text \<open>
  The message types of the \<^verbatim>\<open>irc-proto\<close> crate, as far as the SASL negotiator
  (\<^verbatim>\<open>core/ddirc-core/src/conn/sasl.rs\<close>) and the server (\<^verbatim>\<open>core/ddirc-server/src/state.rs\<close>) build and match
  them. Only data is modelled here: reading and writing a line is the crate's, and the one rendering
  the server asks for is a parameter of the definitions that use it. The tags of a message are left
  out, since the modelled code writes \<open>None\<close> and never reads them; a list of modes is the list of
  its rendered elements, since only its emptiness is tested; every command or numeric that is not
  matched by name is \<open>OtherCommand\<close> or \<open>OtherResponse\<close>.
\<close>

datatype cap_sub = CapLS | CapLIST | CapREQ | CapACK | CapNAK | CapEND | CapNEW | CapDEL

datatype response =
    RPL_WELCOME | RPL_YOURHOST | RPL_CREATED | RPL_MYINFO | RPL_ISUPPORT
  | RPL_MOTDSTART | RPL_MOTD | RPL_ENDOFMOTD | RPL_TOPIC | RPL_TOPICWHOTIME | RPL_NOTOPIC
  | RPL_NAMREPLY | RPL_ENDOFNAMES | RPL_LISTSTART | RPL_LIST | RPL_LISTEND
  | RPL_WHOISUSER | RPL_WHOISSERVER | RPL_WHOISCHANNELS | RPL_ENDOFWHOIS
  | ERR_NOSUCHNICK | ERR_NOSUCHCHANNEL | ERR_CANNOTSENDTOCHAN | ERR_NORECIPIENT | ERR_NOTEXTTOSEND
  | ERR_UNKNOWNCOMMAND | ERR_NONICKNAMEGIVEN | ERR_ERRONEOUSNICKNAME | ERR_NICKNAMEINUSE
  | ERR_USERNOTINCHANNEL | ERR_NOTONCHANNEL | ERR_NOTREGISTERED | ERR_ALREADYREGISTRED
  | ERR_CHANOPRIVSNEEDED
  | RPL_SASLSUCCESS | ERR_SASLFAIL | ERR_SASLTOOLONG | ERR_SASLABORT | ERR_SASLALREADY | ERR_NICKLOCKED
  | OtherResponse nat

datatype prefix_src =
    ServerName ustring
  | Nickname ustring ustring ustring

datatype command =
    PASS ustring
  | NICK ustring
  | USER ustring ustring ustring
  | QUIT "ustring option"
  | JOIN ustring "ustring option" "ustring option"
  | PART ustring "ustring option"
  | ChannelMODE ustring "ustring list"
  | UserMODE ustring "ustring list"
  | TOPIC ustring "ustring option"
  | NAMES "ustring option" "ustring option"
  | LIST "ustring option" "ustring option"
  | KICK ustring ustring "ustring option"
  | PRIVMSG ustring ustring
  | NOTICE ustring ustring
  | MOTD "ustring option"
  | WHOIS "ustring option" ustring
  | PING ustring "ustring option"
  | PONG ustring "ustring option"
  | ERROR ustring
  | CAP "ustring option" cap_sub "ustring option" "ustring option"
  | AUTHENTICATE ustring
  | Response response "ustring list"
  | Raw ustring "ustring list"
  | OtherCommand ustring "ustring list"

record message =
  msg_prefix :: "prefix_src option"
  msg_command :: command

end
