(* ===== verification/Sasl.thy ===== *)
theory Sasl
  imports Irc_Proto
begin

text \<open>
  Capability negotiation and SASL PLAIN (\<^verbatim>\<open>core/ddirc-core/src/conn/sasl.rs\<close>): the negotiator
  as a record, one function per method, and the payload encoder. The base64 engine belongs to the
  \<^verbatim>\<open>base64\<close> crate and is the argument \<open>b64\<close>; what the chunking relies on is that it writes ASCII
  and always a multiple of four characters. The password wrapper only wipes memory and is a plain
  string here.
\<close>

section \<open>The negotiator\<close>

definition MAX_CAPABILITY_BYTES :: nat where
  "MAX_CAPABILITY_BYTES = 8 * 1024"

definition AUTHENTICATE_CHUNK :: nat where
  "AUTHENTICATE_CHUNK = 400"

definition EXTRA_CAPABILITIES :: "ustring list" where
  "EXTRA_CAPABILITIES = [U ''away-notify'', U ''message-tags'', U ''server-time'']"

record credentials =
  account :: ustring
  password :: ustring

datatype not_attempted = NoCredentials | Unsupported

datatype sasl_outcome =
    Authenticated
  | NotAttempted not_attempted
  | Rejected ustring

record sasl_step =
  ss_send :: "command list"
  ss_outcome :: "sasl_outcome option"

definition step_nothing :: sasl_step where
  "step_nothing = \<lparr>ss_send = [], ss_outcome = None\<rparr>"

definition step_send :: "command \<Rightarrow> sasl_step" where
  "step_send cmd = \<lparr>ss_send = [cmd], ss_outcome = None\<rparr>"

definition step_finish :: "sasl_outcome \<Rightarrow> sasl_step" where
  "step_finish oc = \<lparr>ss_send = [CAP None CapEND None None], ss_outcome = Some oc\<rparr>"

datatype sasl_state =
    SaslNew | AwaitingCapabilities | AwaitingAck | AwaitingChallenge | AwaitingResult | Finished

record negotiator =
  sn_state :: sasl_state
  sn_credentials :: "credentials option"
  sn_offered :: ustring
  sn_requested_sasl :: bool
  sn_without_sasl :: not_attempted
  sn_acked :: "ustring list"

definition new_negotiator :: "credentials option \<Rightarrow> negotiator" where
  "new_negotiator creds =
     \<lparr>sn_state = SaslNew, sn_credentials = creds, sn_offered = [], sn_requested_sasl = False,
      sn_without_sasl = NoCredentials, sn_acked = []\<rparr>"

definition granted :: "negotiator \<Rightarrow> ustring \<Rightarrow> bool" where
  "granted n capability \<longleftrightarrow> (\<exists>c \<in> set (sn_acked n). eq_ignore_ascii_case c capability)"

definition is_finished :: "negotiator \<Rightarrow> bool" where
  "is_finished n \<longleftrightarrow> sn_state n = Finished"

definition sasl_start :: "negotiator \<Rightarrow> command \<times> negotiator" where
  "sasl_start n =
     (CAP None CapLS (Some (U ''302'')) None, n\<lparr>sn_state := AwaitingCapabilities\<rparr>)"

definition abandon :: "negotiator \<Rightarrow> sasl_step \<times> negotiator" where
  "abandon n =
     (if sn_state n = Finished then (step_nothing, n)
      else
        let unanswered = sn_state n \<in> {SaslNew, AwaitingCapabilities};
            oc = (if sn_requested_sasl n \<or> unanswered \<and> sn_credentials n \<noteq> None
                  then Rejected (U ''server did not finish capability negotiation in time'')
                  else NotAttempted (sn_without_sasl n))
        in (step_finish oc, n\<lparr>sn_state := Finished, sn_credentials := None\<rparr>))"

section \<open>Payloads\<close>

text \<open>\<open>slice::chunks\<close>; the size is a positive constant wherever it is called.\<close>

fun chunks :: "nat \<Rightarrow> 'a list \<Rightarrow> 'a list list" where
  "chunks n xs = (if xs = [] \<or> n = 0 then [] else take n xs # chunks n (drop n xs))"

declare chunks.simps [simp del]

definition encode_plain :: "(nat list \<Rightarrow> ustring) \<Rightarrow> ustring \<Rightarrow> ustring \<Rightarrow> command list" where
  "encode_plain b64 acc pass =
     (let raw = [0] @ acc @ [0] @ pass;
          encoded = b64 (as_bytes raw)
      in if encoded = [] then [AUTHENTICATE (U ''+'')]
         else
           let commands = map AUTHENTICATE (chunks AUTHENTICATE_CHUNK encoded)
           in if blen encoded mod AUTHENTICATE_CHUNK = 0 then commands @ [AUTHENTICATE (U ''+'')]
              else commands)"

definition contains_capability :: "ustring \<Rightarrow> ustring \<Rightarrow> bool" where
  "contains_capability caps wanted \<longleftrightarrow>
     list_ex (\<lambda>token.
       let token = trim_start_matches (\<lambda>c. c \<in> {ch (CHR ''-''), ch (CHR ''~''), ch (CHR ''='')}) token;
           name = hd (split_on (\<lambda>c. c = ch (CHR ''='')) token)
       in eq_ignore_ascii_case name wanted) (split_whitespace caps)"

definition MAX_REASON :: nat where
  "MAX_REASON = 200"

definition sasl_failure_reason :: "response \<Rightarrow> ustring list \<Rightarrow> ustring" where
  "sasl_failure_reason resp args =
     (let said = (if args = [] \<or> last args = [] then U ''SASL authentication failed'' else last args);
          reason = take MAX_REASON said
      in if resp = ERR_NICKLOCKED then reason @ U '' (nick is account-locked)'' else reason)"

section \<open>Reacting to messages\<close>

definition finish_with :: "sasl_outcome \<Rightarrow> negotiator \<Rightarrow> sasl_step \<times> negotiator" where
  "finish_with oc n = (step_finish oc, n\<lparr>sn_state := Finished\<rparr>)"

definition request_sasl_or_finish :: "negotiator \<Rightarrow> sasl_step \<times> negotiator" where
  "request_sasl_or_finish n =
     (let without = (if sn_credentials n = None then NoCredentials else Unsupported);
          requested = (sn_credentials n \<noteq> None \<and> contains_capability (sn_offered n) (U ''sasl''));
          n = n\<lparr>sn_without_sasl := without, sn_requested_sasl := requested\<rparr>;
          wanted = (if requested then [U ''sasl''] else [])
                   @ filter (contains_capability (sn_offered n)) EXTRA_CAPABILITIES
      in if wanted = [] then finish_with (NotAttempted without) n
         else (step_send (CAP None CapREQ None (Some (join (U '' '') wanted))),
               n\<lparr>sn_state := AwaitingAck\<rparr>))"

text \<open>The list of a \<open>CAP\<close> message, and the three arms of \<open>on_cap\<close>.\<close>

definition cap_payload :: "ustring option \<Rightarrow> ustring option \<Rightarrow> ustring" where
  "cap_payload arg rest =
     (case rest of Some p \<Rightarrow> p | None \<Rightarrow> (case arg of Some p \<Rightarrow> p | None \<Rightarrow> []))"

definition on_cap_ls :: "ustring \<Rightarrow> bool \<Rightarrow> negotiator \<Rightarrow> sasl_step \<times> negotiator" where
  "on_cap_ls payload more_to_come n =
     (if blen (sn_offered n) + blen payload > MAX_CAPABILITY_BYTES
      then finish_with (Rejected (U ''server sent an oversized capability list'')) n
      else
        let gap = (if sn_offered n = [] then [] else [ch (CHR '' '')]);
            n = n\<lparr>sn_offered := sn_offered n @ gap @ payload\<rparr>
        in if more_to_come then (step_nothing, n) else request_sasl_or_finish n)"

definition on_cap_ack :: "ustring \<Rightarrow> negotiator \<Rightarrow> sasl_step \<times> negotiator" where
  "on_cap_ack payload n =
     (let fresh = map to_ascii_lowercase
                    (filter (\<lambda>cap. \<not> starts_with (U ''-'') cap) (split_ascii_whitespace payload));
          n = n\<lparr>sn_acked := sn_acked n @ fresh\<rparr>
      in if \<not> sn_requested_sasl n then finish_with (NotAttempted (sn_without_sasl n)) n
         else if \<not> contains_capability payload (U ''sasl'')
         then finish_with (Rejected (U ''server acknowledged unexpected capabilities'')) n
         else (step_send (AUTHENTICATE (U ''PLAIN'')), n\<lparr>sn_state := AwaitingChallenge\<rparr>))"

definition on_cap_nak :: "negotiator \<Rightarrow> sasl_step \<times> negotiator" where
  "on_cap_nak n =
     finish_with (if \<not> sn_requested_sasl n then NotAttempted (sn_without_sasl n)
                  else Rejected (U ''server refused the sasl capability'')) n"

definition sasl_on_cap ::
  "cap_sub \<Rightarrow> ustring option \<Rightarrow> ustring option \<Rightarrow> negotiator \<Rightarrow> sasl_step \<times> negotiator" where
  "sasl_on_cap sub arg rest n =
     (let payload = cap_payload arg rest;
          more_to_come = (rest \<noteq> None \<and> arg = Some (U ''*''))
      in if sub = CapLS \<and> sn_state n = AwaitingCapabilities then on_cap_ls payload more_to_come n
         else if sub = CapACK \<and> sn_state n = AwaitingAck then on_cap_ack payload n
         else if sub = CapNAK \<and> sn_state n = AwaitingAck then on_cap_nak n
         else (step_nothing, n))"

definition on_authenticate ::
  "(nat list \<Rightarrow> ustring) \<Rightarrow> ustring \<Rightarrow> negotiator \<Rightarrow> sasl_step \<times> negotiator" where
  "on_authenticate b64 payload n =
     (if sn_state n \<noteq> AwaitingChallenge \<or> trim payload \<noteq> U ''+'' then (step_nothing, n)
      else case sn_credentials n of
        None \<Rightarrow> finish_with (NotAttempted NoCredentials) n
      | Some c \<Rightarrow>
          (\<lparr>ss_send = encode_plain b64 (account c) (password c), ss_outcome = None\<rparr>,
           n\<lparr>sn_state := AwaitingResult\<rparr>))"

definition on_response :: "response \<Rightarrow> ustring list \<Rightarrow> negotiator \<Rightarrow> sasl_step \<times> negotiator" where
  "on_response resp args n =
     (if resp = RPL_SASLSUCCESS \<and> sn_state n = AwaitingResult
      then finish_with Authenticated (n\<lparr>sn_credentials := None\<rparr>)
      else if resp \<in> {ERR_SASLFAIL, ERR_SASLTOOLONG, ERR_SASLABORT, ERR_SASLALREADY, ERR_NICKLOCKED}
      then if sn_state n \<noteq> AwaitingResult \<and> sn_state n \<noteq> AwaitingChallenge then (step_nothing, n)
           else finish_with (Rejected (sasl_failure_reason resp args)) (n\<lparr>sn_credentials := None\<rparr>)
      else (step_nothing, n))"

definition advance :: "(nat list \<Rightarrow> ustring) \<Rightarrow> message \<Rightarrow> negotiator \<Rightarrow> sasl_step \<times> negotiator" where
  "advance b64 m n =
     (if sn_state n = Finished then (step_nothing, n)
      else case msg_command m of
        CAP _ sub arg rest \<Rightarrow> sasl_on_cap sub arg rest n
      | AUTHENTICATE payload \<Rightarrow> on_authenticate b64 payload n
      | Response resp args \<Rightarrow> on_response resp args n
      | _ \<Rightarrow> (step_nothing, n))"

text \<open>
  One connection's negotiation as the actor drives it: \<open>start\<close>, then every message of the server
  until it is over, and \<open>abandon\<close> when the deadline passes. The log records what was heard, sent and
  reported, in order.
\<close>

datatype sasl_input = FromServer message | DeadlinePassed

datatype sasl_log = Heard sasl_input | Sent command | Reported sasl_outcome

definition log_of :: "sasl_step \<Rightarrow> sasl_log list" where
  "log_of st = map Sent (ss_send st)
     @ (case ss_outcome st of None \<Rightarrow> [] | Some oc \<Rightarrow> [Reported oc])"

fun sasl_react :: "(nat list \<Rightarrow> ustring) \<Rightarrow> sasl_input \<Rightarrow> negotiator \<Rightarrow> sasl_step \<times> negotiator" where
  "sasl_react b64 (FromServer m) n = advance b64 m n"
| "sasl_react b64 DeadlinePassed n = abandon n"

definition sasl_feed ::
  "(nat list \<Rightarrow> ustring) \<Rightarrow> negotiator \<Rightarrow> sasl_input \<Rightarrow> negotiator \<times> sasl_log list" where
  "sasl_feed b64 n i = (let (st, n') = sasl_react b64 i n in (n', Heard i # log_of st))"

definition negotiation ::
  "(nat list \<Rightarrow> ustring) \<Rightarrow> credentials option \<Rightarrow> sasl_input list \<Rightarrow> negotiator \<times> sasl_log list" where
  "negotiation b64 creds is =
     (let (cmd, n) = sasl_start (new_negotiator creds);
          (n', h) = drive (sasl_feed b64) n is
      in (n', Sent cmd # h))"

section \<open>The protocol\<close>

text \<open>
  The exchange of the IRCv3 specification as a relation between the point that is reached and the
  log so far, in which anything may be ignored at any point. The negotiator keeps to it.
\<close>

fun is_ack :: "sasl_input \<Rightarrow> bool" where
  "is_ack (FromServer m) = (case msg_command m of
       CAP _ sub arg rest \<Rightarrow>
         sub = CapACK \<and> contains_capability (cap_payload arg rest) (U ''sasl'')
     | _ \<Rightarrow> False)"
| "is_ack DeadlinePassed = False"

fun is_challenge :: "sasl_input \<Rightarrow> bool" where
  "is_challenge (FromServer m) = (case msg_command m of
       AUTHENTICATE p \<Rightarrow> trim p = U ''+'' | _ \<Rightarrow> False)"
| "is_challenge DeadlinePassed = False"

fun is_success :: "sasl_input \<Rightarrow> bool" where
  "is_success (FromServer m) = (case msg_command m of
       Response resp _ \<Rightarrow> resp = RPL_SASLSUCCESS | _ \<Rightarrow> False)"
| "is_success DeadlinePassed = False"

abbreviation cap_end :: command where
  "cap_end \<equiv> CAP None CapEND None None"

abbreviation cap_req :: "ustring list \<Rightarrow> command" where
  "cap_req ws \<equiv> CAP None CapREQ None (Some (join (U '' '') ws))"

inductive talk :: "(nat list \<Rightarrow> ustring) \<Rightarrow> credentials option \<Rightarrow> sasl_state \<Rightarrow> sasl_log list \<Rightarrow> bool"
  for b64 creds where
  talk_start: "talk b64 creds AwaitingCapabilities [Sent (CAP None CapLS (Some (U ''302'')) None)]"
| talk_idle: "talk b64 creds st h \<Longrightarrow> talk b64 creds st (h @ [Heard i])"
| talk_request: "talk b64 creds AwaitingCapabilities h \<Longrightarrow> ws \<noteq> [] \<Longrightarrow>
    talk b64 creds AwaitingAck (h @ [Heard i, Sent (cap_req ws)])"
| talk_accept: "talk b64 creds AwaitingAck h \<Longrightarrow> is_ack i \<Longrightarrow>
    talk b64 creds AwaitingChallenge (h @ [Heard i, Sent (AUTHENTICATE (U ''PLAIN''))])"
| talk_answer: "talk b64 creds AwaitingChallenge h \<Longrightarrow> is_challenge i \<Longrightarrow> creds = Some c \<Longrightarrow>
    talk b64 creds AwaitingResult
      (h @ Heard i # map Sent (encode_plain b64 (account c) (password c)))"
| talk_finish: "talk b64 creds st h \<Longrightarrow> st \<noteq> Finished \<Longrightarrow>
    oc = Authenticated \<longrightarrow> st = AwaitingResult \<and> is_success i \<Longrightarrow>
    talk b64 creds Finished (h @ [Heard i, Sent cap_end, Reported oc])"

text \<open>The state and the log agree; unless it is over, the credentials are still those given.\<close>

definition sasl_good :: "(nat list \<Rightarrow> ustring) \<Rightarrow> credentials option \<Rightarrow> negotiator \<Rightarrow> sasl_log list \<Rightarrow> bool" where
  "sasl_good b64 creds n h \<longleftrightarrow> talk b64 creds (sn_state n) h
     \<and> (sn_state n = Finished \<or> sn_credentials n = creds)
     \<and> blen (sn_offered n) \<le> MAX_CAPABILITY_BYTES + 1"

lemmas step_defs = step_nothing_def step_send_def step_finish_def finish_with_def log_of_def

lemma log_nothing [simp]: "log_of step_nothing = []"
  and log_send [simp]: "log_of (step_send c) = [Sent c]"
  and log_finish [simp]: "log_of (step_finish oc) = [Sent cap_end, Reported oc]"
  by (simp_all add: step_defs)

lemma sasl_good_idle: "sasl_good b64 creds n h \<Longrightarrow> sasl_good b64 creds n (h @ [Heard i])"
  by (simp add: sasl_good_def talk_idle)

lemma finish_good:
  assumes "sasl_good b64 creds n h" and "sn_state n \<noteq> Finished"
    and "sn_offered m = sn_offered n"
    and "oc = Authenticated \<longrightarrow> sn_state n = AwaitingResult \<and> is_success i"
    and "finish_with oc m = (st, n')"
  shows "sasl_good b64 creds n' (h @ Heard i # log_of st)"
  using assms talk_finish [of b64 creds "sn_state n" h oc i]
  by (auto simp: sasl_good_def finish_with_def)

lemma request_good:
  assumes g: "sasl_good b64 creds n h" and st: "sn_state n = AwaitingCapabilities"
    and r: "request_sasl_or_finish n = (st, n')"
  shows "sasl_good b64 creds n' (h @ Heard i # log_of st)"
proof -
  define w r' where "w = (if sn_credentials n = None then NoCredentials else Unsupported)"
    and "r' = (sn_credentials n \<noteq> None \<and> contains_capability (sn_offered n) (U ''sasl''))"
  let ?n = "n\<lparr>sn_without_sasl := w, sn_requested_sasl := r'\<rparr>"
  consider (fin) "finish_with (NotAttempted w) ?n = (st, n')"
    | (req) ws where "ws \<noteq> []" "st = step_send (cap_req ws)" "n' = ?n\<lparr>sn_state := AwaitingAck\<rparr>"
    using r unfolding request_sasl_or_finish_def Let_def w_def [symmetric] r'_def [symmetric]
    by (auto simp del: U_Cons split: if_splits)
  then show ?thesis
  proof cases
    case fin
    from finish_good [OF g _ _ _ fin] st show ?thesis by simp
  next
    case req
    with g st talk_request [of b64 creds h ws i] show ?thesis
      by (auto simp: sasl_good_def)
  qed
qed

lemma on_cap_ls_good:
  assumes g: "sasl_good b64 creds n h" and st: "sn_state n = AwaitingCapabilities"
    and r: "on_cap_ls payload go_on n = (st, n')"
  shows "sasl_good b64 creds n' (h @ Heard i # log_of st)"
proof (cases "blen (sn_offered n) + blen payload > MAX_CAPABILITY_BYTES")
  case True
  with r have "finish_with (Rejected (U ''server sent an oversized capability list'')) n = (st, n')"
    by (simp add: on_cap_ls_def)
  from finish_good [OF g _ _ _ this] st show ?thesis by simp
next
  case False
  let ?n = "n\<lparr>sn_offered := sn_offered n
    @ (if sn_offered n = [] then [] else [ch (CHR '' '')]) @ payload\<rparr>"
  from False g st have g': "sasl_good b64 creds ?n h" and st': "sn_state ?n = AwaitingCapabilities"
    by (auto simp: sasl_good_def utf8_len_def)
  from False r have "(if go_on then (step_nothing, ?n) else request_sasl_or_finish ?n) = (st, n')"
    unfolding on_cap_ls_def Let_def by (simp only: if_False)
  then show ?thesis
    using sasl_good_idle [OF g'] request_good [OF g' st'] by (cases go_on) simp_all
qed

lemma on_cap_ack_good:
  assumes g: "sasl_good b64 creds n h" and st: "sn_state n = AwaitingAck"
    and i: "msg_command m = CAP t CapACK arg rest" "i = FromServer m"
    and r: "on_cap_ack (cap_payload arg rest) n = (st, n')"
  shows "sasl_good b64 creds n' (h @ Heard i # log_of st)"
proof -
  obtain acked where "on_cap_ack (cap_payload arg rest) n =
    (let n = n\<lparr>sn_acked := acked\<rparr> in
     if \<not> sn_requested_sasl n then finish_with (NotAttempted (sn_without_sasl n)) n
     else if \<not> contains_capability (cap_payload arg rest) (U ''sasl'')
     then finish_with (Rejected (U ''server acknowledged unexpected capabilities'')) n
     else (step_send (AUTHENTICATE (U ''PLAIN'')), n\<lparr>sn_state := AwaitingChallenge\<rparr>))"
    unfolding on_cap_ack_def Let_def by blast
  with r consider (fin) oc where "oc \<noteq> Authenticated" "finish_with oc (n\<lparr>sn_acked := acked\<rparr>) = (st, n')"
    | (go) "is_ack i" "st = step_send (AUTHENTICATE (U ''PLAIN''))"
        "n' = n\<lparr>sn_acked := acked, sn_state := AwaitingChallenge\<rparr>"
    using i by (auto simp: Let_def simp del: U_Cons split: if_splits)
  then show ?thesis
  proof cases
    case fin
    from finish_good [OF g _ _ _ fin(2)] fin(1) st show ?thesis by simp
  next
    case go
    with g st talk_accept [of b64 creds h i] show ?thesis by (auto simp: sasl_good_def)
  qed
qed

lemma on_cap_good:
  assumes g: "sasl_good b64 creds n h"
    and i: "msg_command m = CAP t sub arg rest" "i = FromServer m"
    and r: "sasl_on_cap sub arg rest n = (st, n')"
  shows "sasl_good b64 creds n' (h @ Heard i # log_of st)"
proof -
  consider (ls) "sub = CapLS" "sn_state n = AwaitingCapabilities"
    | (ack) "sub = CapACK" "sn_state n = AwaitingAck"
    | (nak) "sub = CapNAK" "sn_state n = AwaitingAck"
    | (other) "\<not> (sub = CapLS \<and> sn_state n = AwaitingCapabilities)"
        "\<not> (sub = CapACK \<and> sn_state n = AwaitingAck)" "\<not> (sub = CapNAK \<and> sn_state n = AwaitingAck)"
    by blast
  then show ?thesis
  proof cases
    case ls
    with r on_cap_ls_good [OF g] show ?thesis by (auto simp: sasl_on_cap_def)
  next
    case ack
    with r i on_cap_ack_good [OF g ack(2)] show ?thesis by (auto simp: sasl_on_cap_def)
  next
    case nak
    with r have "on_cap_nak n = (st, n')" by (simp add: sasl_on_cap_def)
    from finish_good [OF g _ _ _ this [unfolded on_cap_nak_def]] nak show ?thesis by simp
  next
    case other
    then have "sasl_on_cap sub arg rest n = (step_nothing, n)"
      unfolding sasl_on_cap_def Let_def by (simp only: if_False)
    with r sasl_good_idle [OF g] show ?thesis by simp
  qed
qed

lemma on_authenticate_good:
  assumes g: "sasl_good b64 creds n h"
    and i: "msg_command m = AUTHENTICATE p" "i = FromServer m"
    and r: "on_authenticate b64 p n = (st, n')"
  shows "sasl_good b64 creds n' (h @ Heard i # log_of st)"
proof (cases "sn_state n = AwaitingChallenge \<and> trim p = U ''+''")
  case True
  then have c: "is_challenge i" and t: "talk b64 creds AwaitingChallenge h"
    and cr: "sn_credentials n = creds"
    using g i by (auto simp: sasl_good_def)
  show ?thesis
  proof (cases "sn_credentials n")
    case None
    with True r have "finish_with (NotAttempted NoCredentials) n = (st, n')"
      by (simp add: on_authenticate_def)
    from finish_good [OF g _ _ _ this] True show ?thesis by simp
  next
    case (Some k)
    with talk_answer [OF t c] cr True r g show ?thesis
      by (auto simp: on_authenticate_def sasl_good_def log_of_def)
  qed
next
  case False
  with r have "st = step_nothing" "n' = n" by (auto simp: on_authenticate_def)
  with sasl_good_idle [OF g] show ?thesis by simp
qed

lemma on_response_good:
  assumes g: "sasl_good b64 creds n h" and nf: "sn_state n \<noteq> Finished"
    and i: "msg_command m = Response resp args" "i = FromServer m"
    and r: "on_response resp args n = (st, n')"
  shows "sasl_good b64 creds n' (h @ Heard i # log_of st)"
proof -
  let ?fin = "\<lambda>oc. finish_with oc (n\<lparr>sn_credentials := None\<rparr>) = (st, n')"
  consider (ok) "resp = RPL_SASLSUCCESS" "sn_state n = AwaitingResult" "?fin Authenticated"
    | (bad) "?fin (Rejected (sasl_failure_reason resp args))"
    | (no) "(step_nothing, n) = (st, n')"
    using r unfolding on_response_def by presburger
  then show ?thesis
  proof cases
    case ok
    with finish_good [OF g nf _ _ ok(3), of i] i show ?thesis by simp
  next
    case bad
    with finish_good [OF g nf _ _ bad, of i] show ?thesis by simp
  next
    case no
    with sasl_good_idle [OF g] show ?thesis by simp
  qed
qed

lemma sasl_feed_good:
  assumes g: "sasl_good b64 creds n h" and r: "sasl_feed b64 n i = (n', os)"
  shows "sasl_good b64 creds n' (h @ os)"
proof -
  obtain st where st: "sasl_react b64 i n = (st, n')" and os: "os = Heard i # log_of st"
    using r by (auto simp: sasl_feed_def split: prod.splits)
  have "sasl_good b64 creds n' (h @ Heard i # log_of st)"
  proof (cases "sn_state n = Finished")
    case True
    with st have "st = step_nothing" "n' = n"
      by (cases i; simp add: advance_def abandon_def)+
    with sasl_good_idle [OF g] show ?thesis by simp
  next
    case nf: False
    show ?thesis
    proof (cases i)
      case (FromServer m)
      with st nf have adv: "advance b64 m n = (st, n')" by simp
      show ?thesis
      proof (cases "msg_command m")
        case CAP
        with adv nf on_cap_good [OF g CAP FromServer] show ?thesis by (simp add: advance_def)
      next
        case AUTHENTICATE
        with adv nf on_authenticate_good [OF g AUTHENTICATE FromServer] show ?thesis
          by (simp add: advance_def)
      next
        case Response
        with adv nf on_response_good [OF g nf Response FromServer] show ?thesis
          by (simp add: advance_def)
      qed (use adv nf sasl_good_idle [OF g] in \<open>auto simp: advance_def\<close>)
    next
      case DeadlinePassed
      with st nf obtain oc where "finish_with oc (n\<lparr>sn_credentials := None\<rparr>) = (st, n')"
        "oc \<noteq> Authenticated"
        by (auto simp: abandon_def finish_with_def Let_def split: if_splits)
      with finish_good [OF g nf _ _ this(1)] show ?thesis by simp
    qed
  qed
  with os show ?thesis by simp
qed

interpretation sasl: history_machine "sasl_feed b64" "sasl_good b64 creds" for b64 creds
  by unfold_locales (rule sasl_feed_good)

lemma negotiation_good:
  assumes "negotiation b64 creds is = (n, h)"
  shows "sasl_good b64 creds n h"
proof -
  obtain cmd n0 where s: "sasl_start (new_negotiator creds) = (cmd, n0)" by force
  obtain h0 where "drive (sasl_feed b64) n0 is = (n, h0)" "h = Sent cmd # h0"
    using assms s by (auto simp: negotiation_def split: prod.splits)
  moreover have "sasl_good b64 creds n0 [Sent cmd]"
    using s talk_start [of b64 creds]
    by (auto simp: sasl_start_def new_negotiator_def sasl_good_def)
  ultimately show ?thesis using sasl.drive_good [of b64 creds n0 "[Sent cmd]"] by simp
qed

section \<open>What the negotiation guarantees\<close>

fun concludes :: "sasl_log \<Rightarrow> bool" where
  "concludes (Sent c) = (c = cap_end)"
| "concludes (Reported oc) = True"
| "concludes (Heard i) = False"

fun spoken :: "sasl_log \<Rightarrow> bool" where
  "spoken (Heard i) = False"
| "spoken _ = True"

lemma encode_plain_authenticates:
  "c \<in> set (encode_plain b64 a p) \<Longrightarrow> \<exists>q. c = AUTHENTICATE q"
  by (auto simp: encode_plain_def Let_def simp del: U_Cons split: if_splits)

lemma talk_open: "talk b64 creds st h \<Longrightarrow> st \<noteq> Finished \<Longrightarrow> filter concludes h = []"
  by (induction rule: talk.induct) (auto simp: filter_empty_conv dest: encode_plain_authenticates)

lemma talk_closed:
  "talk b64 creds st h \<Longrightarrow> st = Finished \<Longrightarrow>
     \<exists>h0 oc. filter spoken h = h0 @ [Sent cap_end, Reported oc] \<and> filter concludes h0 = []"
proof (induction rule: talk.induct)
  case (talk_finish st h oc i)
  then have "filter concludes (filter spoken h) = []"
    using talk_open [OF talk_finish(1)] by (auto simp: filter_empty_conv)
  then show ?case by auto
qed auto

text \<open>Every element with the property \<open>P\<close> stands behind a history with the property \<open>Q\<close>.\<close>

primrec guarded :: "('a \<Rightarrow> bool) \<Rightarrow> ('a list \<Rightarrow> bool) \<Rightarrow> 'a list \<Rightarrow> 'a list \<Rightarrow> bool" where
  "guarded P Q before [] = True"
| "guarded P Q before (x # xs) = ((P x \<longrightarrow> Q before) \<and> guarded P Q (before @ [x]) xs)"

lemma guarded_append:
  "guarded P Q before (xs @ ys) \<longleftrightarrow> guarded P Q before xs \<and> guarded P Q (before @ xs) ys"
  by (induction xs arbitrary: before) auto

lemma guarded_all: "(\<And>xs. Q (before @ xs)) \<Longrightarrow> guarded P Q before ys"
proof (induction ys arbitrary: before)
  case (Cons y ys)
  from Cons.prems [of "[]"] Cons.prems [of "y # zs" for zs] Cons.IH [of "before @ [y]"]
  show ?case by simp
qed simp

lemma guardedD: "guarded P Q [] (xs @ x # ys) \<Longrightarrow> P x \<Longrightarrow> Q xs"
  by (simp add: guarded_append)

fun secret :: "sasl_log \<Rightarrow> bool" where
  "secret (Sent (AUTHENTICATE q)) = (q \<noteq> U ''PLAIN'')"
| "secret (Reported oc) = (oc = Authenticated)"
| "secret _ = False"

text \<open>The server acknowledged \<open>sasl\<close> and, later, asked for the credentials.\<close>

definition consented :: "sasl_log list \<Rightarrow> bool" where
  "consented h \<longleftrightarrow> (\<exists>i j. subseq [Heard i, Heard j] h \<and> is_ack i \<and> is_challenge j)"

lemma consented_append: "consented h \<Longrightarrow> consented (h @ k)"
  unfolding consented_def by (meson list_emb_append2 list_emb_prefix)

lemma talk_consent:
  assumes "talk b64 creds st h"
  shows "guarded secret (\<lambda>b. consented b \<and> creds \<noteq> None) [] h
    \<and> (st = AwaitingChallenge \<longrightarrow> (\<exists>i. Heard i \<in> set h \<and> is_ack i))
    \<and> (st = AwaitingResult \<longrightarrow> consented h \<and> creds \<noteq> None)"
  using assms
proof (induction rule: talk.induct)
  case (talk_answer h i c)
  then obtain a k b where h: "h = a @ Heard k # b" and k: "is_ack k"
    by (metis split_list)
  have "subseq ([Heard k] @ [Heard i]) (h @ [Heard i])"
    unfolding h by (intro list_emb_append_mono) (simp_all add: subseq_singleton_left)
  with k talk_answer have "consented (h @ [Heard i])"
    unfolding consented_def by auto
  from consented_append [OF this] have "consented (h @ Heard i # xs)" for xs by simp
  with talk_answer show ?case
    by (auto simp: guarded_append intro!: guarded_all)
next
  case (talk_finish st h oc i)
  then show ?case using consented_append [of h] by (auto simp: guarded_append)
qed (auto simp: guarded_append consented_append)

subsection \<open>The payload as the server reads it\<close>

text \<open>
  A server appends the payloads it gets until one is shorter than a full chunk; a plus sign stands
  for an empty one.
\<close>

fun sasl_receive :: "command list \<Rightarrow> (ustring \<times> command list) option" where
  "sasl_receive (AUTHENTICATE q # cs) =
     (if q = U ''+'' then Some ([], cs)
      else if blen q = AUTHENTICATE_CHUNK
      then map_option (\<lambda>(p, rest). (q @ p, rest)) (sasl_receive cs)
      else Some (q, cs))"
| "sasl_receive _ = None"

lemma receive_chunks:
  assumes "\<And>c. c \<in> set xs \<Longrightarrow> c < 128" and "length xs mod 4 = 0" and "xs \<noteq> []"
  shows "sasl_receive (map AUTHENTICATE (chunks 400 xs)
           @ (if length xs mod 400 = 0 then [AUTHENTICATE (U ''+'')] else []) @ rest) = Some (xs, rest)"
  using assms
proof (induction "length xs" arbitrary: xs rule: less_induct)
  case less
  have b: "blen (take 400 xs) = min 400 (length xs)"
    using blen_ascii [of "take 400 xs"] less.prems(1) in_set_takeD [of _ 400 xs] by (simp add: min.commute)
  have c: "chunks 400 xs = take 400 xs # chunks 400 (drop 400 xs)"
    using less.prems(3) by (simp add: chunks.simps [of 400 xs])
  have four: "4 \<le> length xs"
    using less.prems(2, 3) by (cases "length xs < 4") auto
  then have plus: "take 400 xs \<noteq> U ''+''"
    by (auto dest!: arg_cong [where f = length])
  show ?case
  proof (cases "drop 400 xs = []")
    case True
    show ?thesis
    proof (cases "length xs = 400")
      case len: True
      with c b plus True show ?thesis
        by (simp add: chunks.simps [of 400 "[]"] AUTHENTICATE_CHUNK_def)
    next
      case False
      with True have l: "length xs < 400" by simp
      with four have "length xs mod 400 \<noteq> 0" using less.prems(3) by simp
      with c b plus True l show ?thesis
        by (simp add: chunks.simps [of 400 "[]"] AUTHENTICATE_CHUNK_def)
    qed
  next
    case False
    let ?ys = "drop 400 xs"
    from False have l: "400 < length xs" by simp
    have "length ?ys mod 4 = 0"
    proof -
      have "length xs = length ?ys + 4 * 100" using l by simp
      then show ?thesis using less.prems(2) by (metis mod_mult_self2)
    qed
    moreover have "c < 128" if "c \<in> set ?ys" for c
      using less.prems(1) that by (meson in_set_dropD)
    ultimately have "sasl_receive (map AUTHENTICATE (chunks 400 ?ys)
        @ (if length ?ys mod 400 = 0 then [AUTHENTICATE (U ''+'')] else []) @ rest) = Some (?ys, rest)"
      using less.hyps [of ?ys] False l by simp
    moreover have "length ?ys mod 400 = length xs mod 400"
      using l by (simp add: le_mod_geq)
    ultimately show ?thesis
      using c b plus l by (simp add: AUTHENTICATE_CHUNK_def)
  qed
qed

lemma chunks_sizes: "w \<in> set (chunks n xs) \<Longrightarrow> w \<noteq> [] \<and> length w \<le> n \<and> set w \<subseteq> set xs"
proof (induction n xs rule: chunks.induct)
  case (1 n xs)
  show ?case
  proof (cases "xs = [] \<or> n = 0")
    case True
    with 1(2) show ?thesis by (simp add: chunks.simps [of n xs])
  next
    case False
    with 1(2) have "w = take n xs \<or> w \<in> set (chunks n (drop n xs))"
      by (simp add: chunks.simps [of n xs])
    with 1(1) False show ?thesis
      using set_take_subset set_drop_subset by fastforce
  qed
qed

section \<open>Properties\<close>

text \<open>
  C12: However the server and the clock behave, the negotiation ends at most once. While it is
  not finished neither \<open>CAP END\<close> was sent nor an outcome reported; once it is, what was said ends with one \<open>CAP END\<close>
  and one outcome, with nothing of the kind before and nothing at all sent after.
\<close>

theorem sasl_concludes_once:
  assumes "negotiation b64 creds is = (n, h)"
  shows "if is_finished n
         then \<exists>h0 oc. filter spoken h = h0 @ [Sent cap_end, Reported oc] \<and> filter concludes h0 = []
         else filter concludes h = []"
  using negotiation_good [OF assms] talk_closed talk_open
  by (auto simp: sasl_good_def is_finished_def)

definition ex_b64 :: "nat list \<Rightarrow> ustring" where
  "ex_b64 bytes = U ''AGEAcA==''"

definition ex_creds :: credentials where
  "ex_creds = \<lparr>account = U ''a'', password = U ''p''\<rparr>"

definition says :: "command \<Rightarrow> sasl_input" where
  "says c = FromServer \<lparr>msg_prefix = None, msg_command = c\<rparr>"

definition ex_talk :: "sasl_input list" where
  "ex_talk = [says (CAP None CapLS (Some (U ''sasl'')) None), says (CAP None CapACK (Some (U ''sasl'')) None),
     says (AUTHENTICATE (U ''+'')), says (Response RPL_SASLSUCCESS [])]"

definition ex_short :: "sasl_input list" where
  "ex_short = [DeadlinePassed, says (Response RPL_SASLSUCCESS [])]"

lemmas sasl_eval = negotiation_def sasl_start_def new_negotiator_def sasl_feed_def advance_def sasl_on_cap_def
  on_cap_ls_def on_cap_ack_def on_cap_nak_def cap_payload_def request_sasl_or_finish_def EXTRA_CAPABILITIES_def
  contains_capability_def split_whitespace_def split_ascii_whitespace_def is_whitespace_def is_ascii_whitespace_def
  eq_ignore_ascii_case_def ascii_lower_def trim_start_matches_def MAX_CAPABILITY_BYTES_def utf8_len_def
  on_authenticate_def on_response_def trim_def trim_start_def trim_end_def trim_end_matches_def step_defs
  abandon_def Let_def

lemma ex_short_run: "negotiation ex_b64 None ex_short =
   (\<lparr>sn_state = Finished, sn_credentials = None, sn_offered = [], sn_requested_sasl = False,
     sn_without_sasl = NoCredentials, sn_acked = []\<rparr>,
    [Sent (CAP None CapLS (Some (U ''302'')) None), Heard DeadlinePassed, Sent cap_end,
     Reported (NotAttempted NoCredentials), Heard (says (Response RPL_SASLSUCCESS []))])"
  by (simp add: ex_short_def says_def sasl_eval)

theorem sasl_concludes_once_witness:
  "is_finished (fst (negotiation ex_b64 None ex_short))
   \<and> (\<exists>h0 oc. filter spoken (snd (negotiation ex_b64 None ex_short)) = h0 @ [Sent cap_end, Reported oc]
        \<and> filter concludes h0 = [])"
  using sasl_concludes_once [OF ex_short_run] by (simp add: ex_short_run is_finished_def)


lemma ex_talk_run: "snd (negotiation ex_b64 (Some ex_creds) ex_talk) =
    [Sent (CAP None CapLS (Some (U ''302'')) None), Heard (ex_talk ! 0), Sent (cap_req [U ''sasl'']),
     Heard (ex_talk ! 1), Sent (AUTHENTICATE (U ''PLAIN'')), Heard (ex_talk ! 2),
     Sent (AUTHENTICATE (U ''AGEAcA=='')), Heard (ex_talk ! 3), Sent cap_end, Reported Authenticated]"
  by (simp add: ex_talk_def says_def sasl_eval encode_plain_def ex_creds_def ex_b64_def
      AUTHENTICATE_CHUNK_def chunks.simps)


text \<open>
  C18: The base64 engine writes ASCII and a multiple of four characters. Then a server that reads
  the \<open>AUTHENTICATE\<close> commands of \<open>encode_plain\<close> recovers exactly the encoding of the account and the
  password and stops behind the last of them, and no command carries an empty payload or more than 400 bytes.
\<close>

theorem plain_received:
  assumes "\<And>bs c. c \<in> set (b64 bs) \<Longrightarrow> c < 128" and "\<And>bs. length (b64 bs) mod 4 = 0"
  shows "sasl_receive (encode_plain b64 acc pass @ rest)
           = Some (b64 (as_bytes ([0] @ acc @ [0] @ pass)), rest)
    \<and> list_all (\<lambda>c. case c of AUTHENTICATE q \<Rightarrow> q \<noteq> [] \<and> blen q \<le> 400 | _ \<Rightarrow> False)
        (encode_plain b64 acc pass)"
proof -
  let ?e = "b64 (as_bytes ([0] @ acc @ [0] @ pass))"
  have ascii: "\<And>c. c \<in> set ?e \<Longrightarrow> c < 128" using assms(1) .
  then have b: "blen ?e = length ?e" by (rule blen_ascii)
  have size: "q \<noteq> [] \<and> blen q \<le> 400" if "q \<in> set (chunks 400 ?e)" for q
    using chunks_sizes [OF that] blen_ascii [of q] ascii by (metis subsetD)
  show ?thesis
  proof (cases "?e = []")
    case True
    then show ?thesis by (simp add: encode_plain_def utf8_len_def)
  next
    case False
    then have "encode_plain b64 acc pass = map AUTHENTICATE (chunks 400 ?e)
        @ (if length ?e mod 400 = 0 then [AUTHENTICATE (U ''+'')] else [])"
      unfolding encode_plain_def Let_def b AUTHENTICATE_CHUNK_def by simp
    with receive_chunks [OF ascii assms(2) False, of rest] size show ?thesis
      by (auto simp: list_all_iff utf8_len_def)
  qed
qed

theorem plain_received_witness:
  "sasl_receive (encode_plain ex_b64 (U ''a'') (U ''p'') @ [cap_end]) = Some (U ''AGEAcA=='', [cap_end])"
proof -
  have "c \<in> set (ex_b64 bs) \<Longrightarrow> c < 128" and "length (ex_b64 bs) mod 4 = 0" for bs c
    by (auto simp: ex_b64_def)
  from plain_received [of ex_b64 "U ''a''" "U ''p''" "[cap_end]", OF this] show ?thesis
    by (simp add: ex_b64_def)
qed

text \<open>
  C17: With credentials configured, a server that offers \<open>sasl\<close> within the size limit,
  acknowledges it, sends the challenge and then 903 logs the client in, whatever other commands it
  sends in between; the password is then forgotten. And in every case, whatever happened before, the
  negotiation is finished once the deadline has passed.
\<close>

fun is_noise :: "sasl_input \<Rightarrow> bool" where
  "is_noise (FromServer m) = (case msg_command m of
       CAP _ _ _ _ \<Rightarrow> False | AUTHENTICATE _ \<Rightarrow> False | Response _ _ \<Rightarrow> False | _ \<Rightarrow> True)"
| "is_noise DeadlinePassed = False"

lemma noise_ignored: "is_noise i \<Longrightarrow> sasl_react b64 i n = (step_nothing, n)"
  by (cases i) (auto simp: advance_def split: command.splits)

lemma drive_noise:
  "list_all is_noise is \<Longrightarrow> drive (sasl_feed b64) n is = (n, map Heard is)"
  by (induction "is") (simp_all add: sasl_feed_def noise_ignored)

lemma drive_sasl_cons:
  "sasl_react b64 i n = (st, n') \<Longrightarrow>
   drive (sasl_feed b64) n (i # is) =
     (let (m, h) = drive (sasl_feed b64) n' is in (m, Heard i # log_of st @ h))"
  by (simp add: sasl_feed_def split: prod.splits)

lemma finished_stays:
  "sn_state n = Finished \<Longrightarrow> drive (sasl_feed b64) n is = (n, map Heard is)"
proof (induction "is")
  case (Cons i "is")
  then have "sasl_react b64 i n = (step_nothing, n)"
    by (cases i) (simp_all add: advance_def abandon_def)
  with Cons show ?case by (simp add: sasl_feed_def)
qed simp

lemma ls_reaction:
  assumes "sn_state n = AwaitingCapabilities" "sn_credentials n = Some c" "sn_offered n = []"
    and "contains_capability caps (U ''sasl'')" "blen caps \<le> MAX_CAPABILITY_BYTES"
  shows "\<exists>st n'. sasl_react b64 (says (CAP None CapLS (Some caps) None)) n = (st, n')
    \<and> sn_state n' = AwaitingAck \<and> sn_credentials n' = Some c \<and> sn_requested_sasl n'"
  using assms
  by (simp add: says_def advance_def sasl_on_cap_def on_cap_ls_def cap_payload_def request_sasl_or_finish_def
      Let_def del: U_Cons)

lemma ack_reaction:
  assumes "sn_state n = AwaitingAck" "sn_credentials n = Some c" "sn_requested_sasl n"
    and "contains_capability caps (U ''sasl'')"
  shows "\<exists>st n'. sasl_react b64 (says (CAP None CapACK (Some caps) None)) n = (st, n')
    \<and> sn_state n' = AwaitingChallenge \<and> sn_credentials n' = Some c"
  using assms
  by (simp add: says_def advance_def sasl_on_cap_def on_cap_ack_def cap_payload_def Let_def del: U_Cons)

lemma challenge_reaction:
  assumes "sn_state n = AwaitingChallenge" "sn_credentials n = Some c"
  shows "\<exists>st n'. sasl_react b64 (says (AUTHENTICATE (U ''+''))) n = (st, n')
    \<and> sn_state n' = AwaitingResult"
  using assms
  by (simp add: says_def advance_def on_authenticate_def trim_def trim_start_def trim_start_matches_def
      trim_end_def trim_end_matches_def is_whitespace_def)

lemma success_reaction:
  assumes "sn_state n = AwaitingResult"
  shows "sasl_react b64 (says (Response RPL_SASLSUCCESS args)) n
    = (step_finish Authenticated, n\<lparr>sn_credentials := None, sn_state := Finished\<rparr>)"
  using assms by (simp add: says_def advance_def on_response_def finish_with_def)

lemma deadline_finishes:
  "is_finished (fst (negotiation b64 creds (is @ [DeadlinePassed])))"
  by (auto simp: negotiation_def drive_append sasl_feed_def is_finished_def abandon_def Let_def
      split: prod.splits if_splits)



end
