(* ===== verification/Rust_Net.thy ===== *)
theory Rust_Net
  imports Rust_Str
begin

text \<open>
  \<open>std::net::IpAddr\<close> and its \<open>FromStr\<close>, as the library reads an address: four decimal numbers without
  leading zeros, or up to eight hexadecimal groups with at most one double colon and possibly a dotted
  tail. A reader takes a string and gives the value read with what is left of it.
\<close>

datatype ip_addr = V4 nat | V6 "nat list"

definition to_digit :: "nat \<Rightarrow> uchar \<Rightarrow> nat option" where
  "to_digit radix c =
     (let d = (if 48 \<le> c \<and> c \<le> 57 then Some (c - 48)
               else if 97 \<le> c \<and> c \<le> 122 then Some (c - 87)
               else if 65 \<le> c \<and> c \<le> 90 then Some (c - 55) else None)
      in case d of Some v \<Rightarrow> if v < radix then Some v else None | None \<Rightarrow> None)"

text \<open>Every digit that follows is taken; more than the permitted number of them is a failure.\<close>

fun read_digits :: "nat \<Rightarrow> ustring \<Rightarrow> nat list \<times> ustring" where
  "read_digits radix [] = ([], [])"
| "read_digits radix (c # cs) =
     (case to_digit radix c of
        None \<Rightarrow> ([], c # cs)
      | Some d \<Rightarrow> (let (ds, rest) = read_digits radix cs in (d # ds, rest)))"

definition read_number :: "nat \<Rightarrow> nat \<Rightarrow> nat \<Rightarrow> bool \<Rightarrow> ustring \<Rightarrow> (nat \<times> ustring) option" where
  "read_number radix digits bound zero_prefix s =
     (let (ds, rest) = read_digits radix s;
          v = foldl (\<lambda>a d. a * radix + d) 0 ds
      in if ds = [] \<or> length ds > digits \<or> \<not> zero_prefix \<and> hd ds = 0 \<and> 1 < length ds \<or> bound < v
         then None else Some (v, rest))"

definition read_given_char :: "uchar \<Rightarrow> ustring \<Rightarrow> ustring option" where
  "read_given_char c s = (case s of d # ds \<Rightarrow> if d = c then Some ds else None | [] \<Rightarrow> None)"

definition read_separator ::
  "uchar \<Rightarrow> nat \<Rightarrow> (ustring \<Rightarrow> ('a \<times> ustring) option) \<Rightarrow> ustring \<Rightarrow> ('a \<times> ustring) option" where
  "read_separator sep index inner s =
     (if 0 < index then Option.bind (read_given_char sep s) inner else inner s)"

fun read_octets :: "nat \<Rightarrow> nat \<Rightarrow> ustring \<Rightarrow> (nat list \<times> ustring) option" where
  "read_octets 0 i s = Some ([], s)"
| "read_octets (Suc n) i s =
     (case read_separator (ch (CHR ''.'')) i (read_number 10 3 255 False) s of
        None \<Rightarrow> None
      | Some (v, s) \<Rightarrow> map_option (\<lambda>(vs, s). (v # vs, s)) (read_octets n (Suc i) s))"

definition read_ipv4_addr :: "ustring \<Rightarrow> (nat list \<times> ustring) option" where
  "read_ipv4_addr s = read_octets 4 0 s"

text \<open>\<open>read_groups\<close>: the groups read, whether a dotted tail was among them, and the rest.\<close>

fun read_groups :: "nat \<Rightarrow> nat \<Rightarrow> ustring \<Rightarrow> nat list \<times> bool \<times> ustring" where
  "read_groups 0 i s = ([], False, s)"
| "read_groups (Suc n) i s =
     (case (if 0 < n then read_separator (ch (CHR '':'')) i read_ipv4_addr s else None) of
        Some (a, s) \<Rightarrow> ([a ! 0 * 256 + a ! 1, a ! 2 * 256 + a ! 3], True, s)
      | None \<Rightarrow>
          (case read_separator (ch (CHR '':'')) i (read_number 16 4 65535 True) s of
             None \<Rightarrow> ([], False, s)
           | Some (g, s) \<Rightarrow> (let (gs, dotted, s) = read_groups n (Suc i) s in (g # gs, dotted, s))))"

definition read_ipv6_addr :: "ustring \<Rightarrow> (nat list \<times> ustring) option" where
  "read_ipv6_addr s =
     (case read_groups 8 0 s of (head, head_ipv4, s) \<Rightarrow>
        if length head = 8 then Some (head, s)
        else if head_ipv4 then None
        else
          (case Option.bind (read_given_char (ch (CHR '':'')) s) (read_given_char (ch (CHR '':''))) of
             None \<Rightarrow> None
           | Some s \<Rightarrow>
               (case read_groups (8 - (length head + 1)) 0 s of (tail, _, s) \<Rightarrow>
                  Some (head @ replicate (8 - length head - length tail) 0 @ tail, s))))"

definition pack_octets :: "nat list \<Rightarrow> nat" where
  "pack_octets a = foldl (\<lambda>v b. v * 256 + b) 0 a"

definition parse_ip_addr :: "ustring \<Rightarrow> ip_addr option" where
  "parse_ip_addr s =
     (case read_ipv4_addr s of
        Some (a, rest) \<Rightarrow> if rest = [] then Some (V4 (pack_octets a)) else None
      | None \<Rightarrow>
          (case read_ipv6_addr s of
             Some (g, rest) \<Rightarrow> if rest = [] then Some (V6 g) else None
           | None \<Rightarrow> None))"

lemma read_number_le: "read_number r d b z s = Some (v, t) \<Longrightarrow> v \<le> b"
  by (auto simp: read_number_def Let_def split: prod.splits if_splits)

lemma read_separator_le:
  "(\<And>t v u. inner t = Some (v, u) \<Longrightarrow> P v) \<Longrightarrow> read_separator c i inner s = Some (v, u) \<Longrightarrow> P v"
  by (auto simp: read_separator_def split: if_splits bind_splits)

lemma read_octets_ok:
  "read_octets n i s = Some (a, t) \<Longrightarrow> length a = n \<and> (\<forall>b \<in> set a. b \<le> 255)"
proof (induction n i s arbitrary: a t rule: read_octets.induct)
  case (2 n i s)
  then obtain v u vs where v: "read_separator (ch (CHR ''.'')) i (read_number 10 3 255 False) s = Some (v, u)"
    and vs: "read_octets n (Suc i) u = Some (vs, t)" and a: "a = v # vs"
    by (auto split: option.splits prod.splits)
  from read_separator_le [where P = "\<lambda>v. v \<le> 255", OF _ v] have "v \<le> 255"
    using read_number_le by blast
  moreover from "2.IH" [OF v] vs have "length vs = n \<and> (\<forall>b \<in> set vs. b \<le> 255)" by blast
  ultimately show ?case using a by simp
qed simp

lemma length_4E:
  assumes "length a = 4"
  obtains w x y z where "a = [w, x, y, z]"
  using assms by (auto simp: length_Suc_conv eval_nat_numeral)

lemma pack_octets_less:
  assumes "length a = 4" and "\<forall>b \<in> set a. b \<le> 255"
  shows "pack_octets a < 2 ^ 32"
proof -
  from assms(1) obtain w x y z where "a = [w, x, y, z]" by (rule length_4E)
  with assms(2) show ?thesis by (simp add: pack_octets_def)
qed

lemma read_groups_ok:
  "read_groups n i s = (g, d, t) \<Longrightarrow> length g \<le> n \<and> (\<forall>x \<in> set g. x \<le> 65535)"
proof (induction n i s arbitrary: g d t rule: read_groups.induct)
  case (2 n i s)
  show ?case
  proof (cases "if 0 < n then read_separator (ch (CHR '':'')) i read_ipv4_addr s else None")
    case (Some r)
    obtain a u where r: "r = (a, u)" by force
    with Some have n: "0 < n" and sep: "read_separator (ch (CHR '':'')) i read_ipv4_addr s = Some (a, u)"
      by (auto split: if_splits)
    from read_separator_le [where P = "\<lambda>a. length a = 4 \<and> (\<forall>b \<in> set a. b \<le> 255)", OF _ sep]
    have "length a = 4 \<and> (\<forall>b \<in> set a. b \<le> 255)"
      using read_octets_ok unfolding read_ipv4_addr_def by blast
    then have "a ! k \<le> 255" if "k < 4" for k using that by (metis nth_mem)
    from this [of 0] this [of 1] this [of 2] this [of 3]
    show ?thesis using "2.prems" n Some r by auto
  next
    case None
    note none = None
    show ?thesis
    proof (cases "read_separator (ch (CHR '':'')) i (read_number 16 4 65535 True) s")
      case None
      with none "2.prems" show ?thesis by auto
    next
      case (Some r)
      obtain v u where r: "r = (v, u)" by force
      obtain gs d' t' where g: "read_groups n (Suc i) u = (gs, d', t')" by (metis prod_cases3)
      from read_separator_le [where P = "\<lambda>v. v \<le> 65535", OF _ Some [unfolded r]]
      have "v \<le> 65535" using read_number_le by blast
      moreover from "2.IH" [OF none Some r [symmetric]] g
      have "length gs \<le> n \<and> (\<forall>x \<in> set gs. x \<le> 65535)" by auto
      ultimately show ?thesis using "2.prems" none Some r g by auto
    qed
  qed
qed simp

end
