(* ===== verification/Offer.thy ===== *)
theory Offer
  imports Rust_Net
begin

text \<open>
  DCC offers (\<^verbatim>\<open>core/ddirc-core/src/dcc/offer.rs\<close>): reading \<open>DCC SEND\<close>, \<open>DCC RESUME\<close> and
  \<open>DCC ACCEPT\<close>, and the reduction of an offered file name to a safe one. With them go the writer of file names of
  \<^verbatim>\<open>dcc/transfer.rs\<close> and the three lines \<^verbatim>\<open>conn/actor.rs\<close> sends.
\<close>

section \<open>File names\<close>

definition is_windows_device_name :: "ustring \<Rightarrow> bool" where
  "is_windows_device_name name \<longleftrightarrow>
     (let stem = to_ascii_uppercase
                   (trim_end_matches (\<lambda>c. c = ch (CHR '' '')) (hd (split_on (\<lambda>c. c = ch (CHR ''.'')) name)))
      in stem \<in> {U ''CON'', U ''PRN'', U ''AUX'', U ''NUL'', U ''CONIN$'', U ''CONOUT$''}
         \<or> list_ex (\<lambda>p. case strip_prefix p stem of
               Some rest \<Rightarrow> rest \<in> {U ''0'', U ''1'', U ''2'', U ''3'', U ''4'', U ''5'', U ''6'', U ''7'',
                                  U ''8'', U ''9'', [0xB9], [0xB2], [0xB3]}
             | None \<Rightarrow> False) [U ''COM'', U ''LPT''])"

definition is_separator :: "uchar \<Rightarrow> bool" where
  "is_separator c \<longleftrightarrow> c = ch (CHR ''/'') \<or> c = 92"

definition replace_reserved :: "uchar \<Rightarrow> uchar" where
  "replace_reserved c = (if c \<in> set (U ''<>:'' @ [34] @ U ''|?*'') then ch (CHR ''_'') else c)"

definition is_dot_or_space :: "uchar \<Rightarrow> bool" where
  "is_dot_or_space c \<longleftrightarrow> c = ch (CHR ''.'') \<or> c = ch (CHR '' '')"

definition safe_filename :: "ustring \<Rightarrow> ustring option" where
  "safe_filename name =
     (let bare = last (split_on is_separator name)
      in if bare = [] \<or> bare = U ''.'' \<or> bare = U ''..'' then None
         else if blen bare > 255 then None
         else if list_ex is_control bare then None
         else
           let trimmed = trim_end_matches is_dot_or_space (map replace_reserved bare)
           in if trimmed = [] then None
              else
                let lower = to_ascii_lowercase trimmed;
                    name = (if ends_with (U ''.part'') lower \<or> ends_with (U ''.part.from'') lower
                            then trimmed @ U ''_'' else trimmed);
                    name = (if is_windows_device_name name then U ''_'' @ name else name)
                in if blen name \<le> 255 then Some name else None)"

section \<open>Offers\<close>

record dcc_offer =
  of_filename :: ustring
  of_addr :: "ip_addr option"
  of_port :: "nat option"
  of_size :: "nat option"
  of_token :: "nat option"

definition is_reverse :: "dcc_offer \<Rightarrow> bool" where
  "is_reverse d \<longleftrightarrow> of_token d \<noteq> None"

definition strip_keyword :: "ustring \<Rightarrow> ustring \<Rightarrow> ustring option" where
  "strip_keyword s keyword =
     (let s = trim_start s
      in case slice_to s (blen keyword) of
           None \<Rightarrow> None
         | Some head \<Rightarrow>
             let rest = drop (length head) s
             in if \<not> eq_ignore_ascii_case head keyword then None
                else if \<not> starts_with (U '' '') rest then None
                else Some (trim_start rest))"

definition take_filename :: "ustring \<Rightarrow> (ustring \<times> ustring) option" where
  "take_filename s =
     (case strip_prefix [34] s of
        Some rest \<Rightarrow> split_once [34] rest
      | None \<Rightarrow> map_option (\<lambda>(a, b). (a, ch (CHR '' '') # b)) (split_once (U '' '') s))"

definition parse_addr :: "ustring \<Rightarrow> ip_addr option" where
  "parse_addr s =
     (case parse_u32 s of
        Some packed \<Rightarrow> Some (V4 packed)
      | None \<Rightarrow>
          let bracket = (\<lambda>c. c = ch (CHR ''['') \<or> c = ch (CHR '']''))
          in parse_ip_addr (trim_end_matches bracket (trim_start_matches bracket s)))"

text \<open>\<open>Iterator::next\<close> on the arguments that are left, and an optional number among them.\<close>

definition arg_at :: "ustring list \<Rightarrow> nat \<Rightarrow> ustring option" where
  "arg_at args i = (if i < length args then Some (args ! i) else None)"

definition parse_send :: "ustring \<Rightarrow> dcc_offer option" where
  "parse_send body =
     Option.bind (strip_keyword body (U ''DCC'')) (\<lambda>rest.
     Option.bind (strip_keyword rest (U ''SEND'')) (\<lambda>rest.
     Option.bind (take_filename rest) (\<lambda>(name, rest).
     Option.bind (safe_filename name) (\<lambda>filename.
       let args = split_whitespace rest
       in Option.bind (arg_at args 0) (\<lambda>addr.
          Option.bind (Option.bind (arg_at args 1) parse_u16) (\<lambda>port.
            let size = Option.bind (arg_at args 2) parse_u64;
                token = Option.bind (arg_at args 3) parse_u64
            in if port = 0
               then map_option (\<lambda>token. \<lparr>of_filename = filename, of_addr = None, of_port = None,
                      of_size = size, of_token = Some token\<rparr>) token
               else map_option (\<lambda>a. \<lparr>of_filename = filename, of_addr = Some a, of_port = Some port,
                      of_size = size, of_token = None\<rparr>) (parse_addr addr)))))))"

record resume_message =
  rm_filename :: ustring
  rm_port :: nat
  rm_position :: nat
  rm_token :: "nat option"

definition parse_resume_like :: "ustring \<Rightarrow> ustring \<Rightarrow> resume_message option" where
  "parse_resume_like body keyword =
     Option.bind (strip_keyword body (U ''DCC'')) (\<lambda>rest.
     Option.bind (strip_keyword rest keyword) (\<lambda>rest.
     Option.bind (take_filename rest) (\<lambda>(name, rest).
     Option.bind (safe_filename name) (\<lambda>filename.
       let args = split_whitespace rest
       in Option.bind (Option.bind (arg_at args 0) parse_u16) (\<lambda>port.
          Option.bind (Option.bind (arg_at args 1) parse_u64) (\<lambda>position.
            Some \<lparr>rm_filename = filename, rm_port = port, rm_position = position,
                  rm_token = Option.bind (arg_at args 2) parse_u64\<rparr>))))))"

definition parse_resume :: "ustring \<Rightarrow> resume_message option" where
  "parse_resume body = parse_resume_like body (U ''RESUME'')"

definition parse_accept :: "ustring \<Rightarrow> resume_message option" where
  "parse_accept body = parse_resume_like body (U ''ACCEPT'')"

section \<open>Writing offers\<close>

definition dcc_address :: "ip_addr \<Rightarrow> nat option" where
  "dcc_address a = (case a of V4 v \<Rightarrow> Some v | V6 _ \<Rightarrow> None)"

definition quote_filename :: "ustring \<Rightarrow> ustring" where
  "quote_filename name =
     (let cleaned = filter (\<lambda>c. c \<noteq> 34) name
      in if ch (CHR '' '') \<in> set cleaned then [34] @ cleaned @ [34] else cleaned)"

definition send_line :: "ustring \<Rightarrow> nat \<Rightarrow> nat \<Rightarrow> nat \<Rightarrow> ustring" where
  "send_line filename advertised port bytes =
     U ''DCC SEND '' @ quote_filename filename @ U '' '' @ show_nat advertised @ U '' ''
     @ show_nat port @ U '' '' @ show_nat bytes"

definition resume_line :: "ustring \<Rightarrow> nat \<Rightarrow> nat \<Rightarrow> ustring" where
  "resume_line filename port have_bytes =
     U ''DCC RESUME '' @ quote_filename filename @ U '' '' @ show_nat port @ U '' '' @ show_nat have_bytes"

definition accept_line :: "ustring \<Rightarrow> nat \<Rightarrow> nat \<Rightarrow> ustring" where
  "accept_line filename port position =
     U ''DCC ACCEPT '' @ quote_filename filename @ U '' '' @ show_nat port @ U '' '' @ show_nat position"

section \<open>Safe names\<close>

text \<open>What the rules of \<open>safe_filename\<close> promise of a name it lets through.\<close>

definition safe_name :: "ustring \<Rightarrow> bool" where
  "safe_name n \<longleftrightarrow> n \<noteq> [] \<and> blen n \<le> 255
     \<and> list_all (\<lambda>c. \<not> is_separator c \<and> \<not> is_control c \<and> replace_reserved c = c) n
     \<and> \<not> is_dot_or_space (last n)
     \<and> \<not> ends_with (U ''.part'') (to_ascii_lowercase n)
     \<and> \<not> ends_with (U ''.part.from'') (to_ascii_lowercase n)
     \<and> \<not> is_windows_device_name n"

lemma replace_reserved_idem [simp]: "replace_reserved (replace_reserved c) = replace_reserved c"
  by (simp add: replace_reserved_def)

lemma replace_reserved_plain:
  "\<not> is_separator c \<Longrightarrow> \<not> is_control c \<Longrightarrow>
     \<not> is_separator (replace_reserved c) \<and> \<not> is_control (replace_reserved c)"
  by (simp add: replace_reserved_def is_separator_def is_control_def)

lemma device_prefixed: "\<not> is_windows_device_name (U ''_'' @ n)"
proof -
  obtain w ws where "split_on (\<lambda>c. c = ch (CHR ''.'')) n = w # ws"
    by (cases "split_on (\<lambda>c. c = ch (CHR ''.'')) n") auto
  then have hd: "hd (split_on (\<lambda>c. c = ch (CHR ''.'')) (U ''_'' @ n)) = 95 # w" by simp
  have "\<exists>v. trim_end_matches (\<lambda>c. c = ch (CHR '' '')) (95 # w) = 95 # v"
    by (simp add: trim_end_matches_def dropWhile_append) (metis rev_rev_ident)
  then obtain v where "trim_end_matches (\<lambda>c. c = ch (CHR '' '')) (95 # w) = 95 # v" by blast
  with hd show ?thesis
    by (simp add: is_windows_device_name_def Let_def to_ascii_uppercase_def ascii_upper_def strip_prefix_def)
qed

lemma ends_with_snoc: "ends_with p (s @ [c]) \<Longrightarrow> p \<noteq> [] \<Longrightarrow> last p = c"
  by (auto simp: ends_with_def suffix_def) (metis last_appendR last_snoc)

lemma ends_with_Cons: "ends_with (c # p) (d # s) \<Longrightarrow> c \<noteq> d \<Longrightarrow> ends_with (c # p) s"
  by (auto simp: ends_with_def suffix_Cons)

lemma safe_name_mark:
  assumes n: "list_all (\<lambda>c. \<not> is_separator c \<and> \<not> is_control c \<and> replace_reserved c = c) n"
    and "n \<noteq> []" and "\<not> is_dot_or_space (last n)" and len: "blen n \<le> 254"
    and "\<not> ends_with (U ''.part'') (to_ascii_lowercase n)"
    and "\<not> ends_with (U ''.part.from'') (to_ascii_lowercase n)"
  shows "safe_name (U ''_'' @ n)"
proof -
  have u: "\<not> is_separator 95" "\<not> is_control 95" "replace_reserved 95 = 95" "ascii_lower 95 = 95"
    by (simp_all add: is_separator_def is_control_def replace_reserved_def ascii_lower_def)
  have "\<not> ends_with (U ''.part'') (to_ascii_lowercase (U ''_'' @ n))"
    and "\<not> ends_with (U ''.part.from'') (to_ascii_lowercase (U ''_'' @ n))"
    using assms(5, 6) ends_with_Cons by (auto simp: to_ascii_lowercase_def u)
  with assms u device_prefixed [of n] show ?thesis
    by (simp add: safe_name_def utf8_len_def)
qed

lemma safe_filename_sound:
  assumes "safe_filename name = Some n"
  shows "safe_name n"
proof -
  define bare where "bare = last (split_on is_separator name)"
  define t where "t = trim_end_matches is_dot_or_space (map replace_reserved bare)"
  define part where "part = (ends_with (U ''.part'') (to_ascii_lowercase t)
    \<or> ends_with (U ''.part.from'') (to_ascii_lowercase t))"
  define m where "m = (if part then t @ U ''_'' else t)"
  from assms have t: "t \<noteq> []" and ctl: "\<not> list_ex is_control bare" and len: "blen n \<le> 255"
    and n: "n = (if is_windows_device_name m then U ''_'' @ m else m)"
    unfolding safe_filename_def Let_def bare_def [symmetric] t_def [symmetric] part_def [symmetric]
      m_def [symmetric] by (simp_all split: if_splits)
  have "bare \<in> set (split_on is_separator name)" unfolding bare_def by simp
  then have "list_all (\<lambda>c. \<not> is_separator c \<and> \<not> is_control c) bare"
    using ctl split_on_pieces [of bare is_separator name] by (auto simp: list_all_iff list_ex_iff)
  then have "list_all (\<lambda>c. \<not> is_separator c \<and> \<not> is_control c \<and> replace_reserved c = c)
      (map replace_reserved bare)"
    using replace_reserved_plain by (auto simp: list_all_iff)
  then have all_t: "list_all (\<lambda>c. \<not> is_separator c \<and> \<not> is_control c \<and> replace_reserved c = c) t"
    unfolding t_def list_all_iff using trim_end_matches_set by blast
  have last_t: "\<not> is_dot_or_space (last t)"
    using t trim_end_matches_last unfolding t_def by blast
  have u: "\<not> is_separator 95" "\<not> is_control 95" "replace_reserved 95 = 95" "\<not> is_dot_or_space 95"
    by (simp_all add: is_separator_def is_control_def replace_reserved_def is_dot_or_space_def)
  have all_m: "list_all (\<lambda>c. \<not> is_separator c \<and> \<not> is_control c \<and> replace_reserved c = c) m"
    and m: "m \<noteq> []" and last_m: "\<not> is_dot_or_space (last m)"
    using all_t t last_t u by (simp_all add: m_def)
  have marked: "\<not> ends_with (U ''.part'') (to_ascii_lowercase m)
      \<and> \<not> ends_with (U ''.part.from'') (to_ascii_lowercase m)"
  proof (cases part)
    case True
    then have "to_ascii_lowercase m = to_ascii_lowercase t @ [95]"
      by (simp add: m_def to_ascii_lowercase_def ascii_lower_def)
    then show ?thesis using ends_with_snoc by fastforce
  qed (simp add: m_def part_def)
  show ?thesis
  proof (cases "is_windows_device_name m")
    case True
    with n len have "blen m \<le> 254" by (simp add: utf8_len_def)
    with safe_name_mark [OF all_m m last_m this] marked n True show ?thesis by simp
  next
    case False
    with n len all_m m last_m marked show ?thesis by (simp add: safe_name_def)
  qed
qed

lemma safe_filename_fixed:
  assumes "safe_name n"
  shows "safe_filename n = Some n"
proof -
  from assms have all: "list_all (\<lambda>c. \<not> is_separator c \<and> \<not> is_control c \<and> replace_reserved c = c) n"
    and ne: "n \<noteq> []" and l: "\<not> is_dot_or_space (last n)" and len: "blen n \<le> 255"
    and rest: "\<not> ends_with (U ''.part'') (to_ascii_lowercase n)"
      "\<not> ends_with (U ''.part.from'') (to_ascii_lowercase n)" "\<not> is_windows_device_name n"
    unfolding safe_name_def by blast+
  have "split_on is_separator n = [n]"
    using all by (intro split_on_none) (auto simp: list_all_iff)
  moreover have "map replace_reserved n = n" using all by (auto simp: list_all_iff intro: map_idI)
  moreover have "trim_end_matches is_dot_or_space n = n" using l by (simp add: trim_end_matches_id)
  moreover have "\<not> list_ex is_control n" using all by (auto simp: list_all_iff list_ex_iff)
  moreover have "n \<noteq> U ''.''" "n \<noteq> U ''..''" using l by (auto simp: is_dot_or_space_def)
  ultimately show ?thesis
    unfolding safe_filename_def Let_def using ne len rest by simp
qed

section \<open>The lines and their readers\<close>

lemma trim_start_id: "s = [] \<or> \<not> is_whitespace (hd s) \<Longrightarrow> trim_start s = s"
  by (cases s) (auto simp: trim_start_def trim_start_matches_def)

lemma trim_start_space [simp]: "trim_start (32 # s) = trim_start s"
  by (simp add: trim_start_def trim_start_matches_def is_whitespace_def)

lemma strip_keyword_lit:
  assumes "kw \<noteq> []" and "\<not> is_whitespace (hd kw)" and "rest = [] \<or> \<not> is_whitespace (hd rest)"
  shows "strip_keyword (kw @ 32 # rest) kw = Some rest"
  using assms slice_to_prefix [of kw "32 # rest"] trim_start_id [of "kw @ 32 # rest"] trim_start_id [of rest]
  by (simp add: strip_keyword_def starts_with_def)

lemma take_quoted:
  assumes "safe_name n" and "32 \<in> set n \<or> \<not> is_whitespace (hd n)"
  shows "take_filename (quote_filename n @ 32 # rest) = Some (n, 32 # rest)"
    and "\<not> is_whitespace (hd (quote_filename n @ 32 # rest))"
proof -
  have q: "34 \<notin> set n"
    using assms(1) by (auto simp: safe_name_def list_all_iff replace_reserved_def)
  then have cleaned: "filter (\<lambda>c. c \<noteq> 34) n = n" by (auto simp: filter_id_conv)
  have ne: "n \<noteq> []" using assms(1) by (simp add: safe_name_def)
  show "take_filename (quote_filename n @ 32 # rest) = Some (n, 32 # rest)"
  proof (cases "32 \<in> set n")
    case True
    with cleaned have "quote_filename n @ 32 # rest = 34 # n @ 34 # 32 # rest"
      by (simp add: quote_filename_def)
    then show ?thesis using split_once_char [OF q] by (simp add: take_filename_def strip_prefix_def)
  next
    case False
    with cleaned have "quote_filename n = n" by (simp add: quote_filename_def)
    moreover have "strip_prefix [34] (n @ 32 # rest) = None"
      using q ne by (cases n) (auto simp: strip_prefix_def)
    ultimately show ?thesis using split_once_char [OF False] by (simp add: take_filename_def)
  qed
  show "\<not> is_whitespace (hd (quote_filename n @ 32 # rest))"
    using assms(2) ne cleaned by (auto simp: quote_filename_def is_whitespace_def)
qed

lemma split_whitespace_word:
  assumes "w \<noteq> []" and "\<And>c. c \<in> set w \<Longrightarrow> \<not> is_whitespace c"
  shows "split_whitespace (32 # w @ 32 # s) = w # split_whitespace (32 # s)"
    and "split_whitespace (32 # w) = [w]"
proof -
  have ws: "is_whitespace 32" by (simp add: is_whitespace_def)
  have "split_on is_whitespace (w @ 32 # s) = w # split_on is_whitespace s"
    using split_on_append [of is_whitespace 32 w s] ws split_on_none [of w is_whitespace] assms(2) by simp
  then show "split_whitespace (32 # w @ 32 # s) = w # split_whitespace (32 # s)"
    using assms(1) ws by (simp add: split_whitespace_def)
  show "split_whitespace (32 # w) = [w]"
    using split_on_none [of w is_whitespace] assms ws by (simp add: split_whitespace_def)
qed

lemma show_nat_word: "c \<in> set (show_nat n) \<Longrightarrow> \<not> is_whitespace c"
  using show_nat_digits [of c n] by (auto simp: is_ascii_digit_def is_whitespace_def)

lemmas split_number = split_whitespace_word [OF show_nat_nonempty show_nat_word]

section \<open>Properties\<close>

text \<open>
  C13: A name that \<open>safe_filename\<close> lets through is a bare file name: not empty, at most 255
  bytes, without path separators, control characters or characters Windows reserves, not ending in a
  dot or a space (so neither \<open>.\<close> nor \<open>..\<close>), not one of the program's own partial files and no
  Windows device. And it is stable: applying the rules again changes nothing.
\<close>

theorem safe_filename_is_safe:
  assumes "safe_filename name = Some n"
  shows "safe_name n \<and> safe_filename n = Some n"
  using safe_filename_sound [OF assms] safe_filename_fixed by blast

lemmas filename_eval = safe_filename_def is_separator_def is_control_def replace_reserved_def is_dot_or_space_def
  trim_end_matches_def to_ascii_lowercase_def ascii_lower_def ends_with_def suffix_to_prefix is_windows_device_name_def
  to_ascii_uppercase_def ascii_upper_def strip_prefix_def utf8_len_def Let_def

theorem safe_filename_is_safe_witness:
  "safe_filename (U ''../nul.txt.'') = Some (U ''_nul.txt'') \<and> safe_name (U ''_nul.txt'')"
proof -
  have "safe_filename (U ''../nul.txt.'') = Some (U ''_nul.txt'')"
    by (simp add: filename_eval)
  with safe_filename_is_safe [OF this] show ?thesis by simp
qed



end
