(* ===== verification/Media_Kind.thy ===== *)
theory Media_Kind
  imports Rust_Str "HOL-Library.Word"
begin

text \<open>
  The types of the metadata stripper (\<^verbatim>\<open>core/ddirc-core/src/media/mod.rs\<close>) and the reads on byte
  slices its four formats share. A byte is an 8-bit word; a checked read is an \<open>option\<close>; an unchecked
  one may panic, which is an outcome of its own beside success and the errors the program returns.
  Offsets are \<open>usize\<close> values of a 64-bit target.

  What the dispatcher relies on in a format is the contract \<open>stripper\<close>: it never panics on a file of
  its kind, it accounts for the bytes it drops, and it finds nothing more to drop in its own result.
\<close>

type_synonym byte = "8 word"

definition B :: "string \<Rightarrow> byte list" where
  "B s = map of_char s"

lemma B_Nil [simp]: "B [] = []"
  by (simp add: B_def)

lemma B_Cons [simp]: "B (c # s) = of_char c # B s"
  by (simp add: B_def)

section \<open>Results\<close>

datatype media_kind = Jpeg | Png | Gif | WebP

primrec kind_as_str :: "media_kind \<Rightarrow> ustring" where
  "kind_as_str Jpeg = U ''JPEG''"
| "kind_as_str Png = U ''PNG''"
| "kind_as_str Gif = U ''GIF''"
| "kind_as_str WebP = U ''WebP''"

record removed =
  rv_what :: ustring
  rv_bytes :: nat

record stripped =
  st_kind :: media_kind
  st_bytes :: "byte list"
  st_removed :: "removed list"

definition removed_bytes :: "stripped \<Rightarrow> nat" where
  "removed_bytes s = sum_list (map rv_bytes (st_removed s))"

definition was_already_clean :: "stripped \<Rightarrow> bool" where
  "was_already_clean s \<longleftrightarrow> st_removed s = []"

datatype strip_error = EmptyFile | UnsupportedFile | Malformed ustring ustring

definition malformed :: "media_kind \<Rightarrow> ustring \<Rightarrow> strip_error" where
  "malformed k detail = Malformed (kind_as_str k) detail"

datatype 'a outcome = Fine 'a | Failed strip_error | Panic

section \<open>Reading bytes\<close>

definition get_at :: "'a list \<Rightarrow> nat \<Rightarrow> 'a option" where
  "get_at xs i = (if i < length xs then Some (xs ! i) else None)"

text \<open>\<open>get(a..b)\<close>; indexing with the same range panics where this is \<open>None\<close>.\<close>

definition get_range :: "'a list \<Rightarrow> nat \<Rightarrow> nat \<Rightarrow> 'a list option" where
  "get_range xs a b = (if a \<le> b \<and> b \<le> length xs then Some (take (b - a) (drop a xs)) else None)"

definition media_usize_max :: nat where
  "media_usize_max = 2 ^ 64 - 1"

definition checked_add :: "nat \<Rightarrow> nat \<Rightarrow> nat option" where
  "checked_add a b = (if a + b \<le> media_usize_max then Some (a + b) else None)"

definition be16 :: "byte list \<Rightarrow> nat" where
  "be16 b = unat (b ! 0) * 256 + unat (b ! 1)"

definition be32 :: "byte list \<Rightarrow> nat" where
  "be32 b = unat (b ! 0) * 16777216 + unat (b ! 1) * 65536 + unat (b ! 2) * 256 + unat (b ! 3)"

definition le32 :: "byte list \<Rightarrow> nat" where
  "le32 b = unat (b ! 3) * 16777216 + unat (b ! 2) * 65536 + unat (b ! 1) * 256 + unat (b ! 0)"

lemma get_at_Some: "get_at xs i = Some x \<longleftrightarrow> i < length xs \<and> xs ! i = x"
  by (auto simp: get_at_def)

lemma get_range_Some:
  "get_range xs a b = Some ys \<longleftrightarrow> a \<le> b \<and> b \<le> length xs \<and> ys = take (b - a) (drop a xs)"
  by (auto simp: get_range_def)

lemma get_range_length: "get_range xs a b = Some ys \<Longrightarrow> length ys = b - a"
  by (auto simp: get_range_def split: if_splits)

lemma get_range_nth: "get_range xs a b = Some ys \<Longrightarrow> n < b - a \<Longrightarrow> ys ! n = xs ! (a + n)"
  by (auto simp: get_range_Some)

lemma drop_get_at: "get_at xs i = Some x \<Longrightarrow> drop i xs = x # drop (i + 1) xs"
  by (auto simp: get_at_Some Cons_nth_drop_Suc)

text \<open>Reads behind a known prefix, and of a block that is known to stand there.\<close>

lemma get_at_skip [simp]: "get_at (pre @ xs) (length pre + i) = get_at xs i"
  by (simp add: get_at_def nth_append)

lemma get_at_here [simp]: "get_at (pre @ xs) (length pre) = get_at xs 0"
  using get_at_skip [of pre xs 0] by (simp del: get_at_skip)

lemma get_at_Cons_0 [simp]: "get_at (x # xs) 0 = Some x"
  by (simp add: get_at_def)

lemma get_at_block: "i < length ys \<Longrightarrow> get_at (ys @ zs) i = Some (ys ! i)"
  by (simp add: get_at_def nth_append)

lemma get_range_skip [simp]: "get_range (pre @ xs) (length pre + a) (length pre + b) = get_range xs a b"
  by (simp add: get_range_def)

lemma get_range_here [simp]: "get_range (pre @ xs) (length pre) (length pre + b) = get_range xs 0 b"
  using get_range_skip [of pre xs 0 b] by (simp del: get_range_skip)

lemma get_range_block:
  "b \<le> length ys \<Longrightarrow> get_range (ys @ zs) a b = get_range ys a b"
  by (simp add: get_range_def)

lemma get_range_all [simp]: "get_range ys 0 (length ys) = Some ys"
  by (simp add: get_range_def)

text \<open>A read inside a block that was read as a whole.\<close>

lemma get_range_sub:
  assumes "get_range xs i (i + n) = Some ys" and "a \<le> b" and "b \<le> n"
  shows "get_range xs (i + a) (i + b) = get_range ys a b"
  using assms by (auto simp: get_range_def split: if_splits)
    (simp add: take_drop min_absorb1 add.commute)

lemma get_at_sub:
  assumes "get_range xs i (i + n) = Some ys" and "a < n"
  shows "get_at xs (i + a) = get_at ys a"
  using assms by (auto simp: get_range_def get_at_def split: if_splits)

section \<open>Loops that copy and drop\<close>

abbreviation removed_sum :: "removed list \<Rightarrow> nat" where
  "removed_sum rs \<equiv> sum_list (map rv_bytes rs)"

text \<open>
  A loop with an output and a list of what was removed: it does not panic, and on success it has
  appended pieces whose total satisfies \<open>Q\<close> and whose kept part satisfies \<open>S\<close>.
\<close>

definition adds :: "(byte list \<times> removed list) outcome \<Rightarrow> byte list \<Rightarrow> removed list \<Rightarrow> (nat \<Rightarrow> bool)
    \<Rightarrow> (byte list \<Rightarrow> bool) \<Rightarrow> bool" where
  "adds r out rem Q S \<longleftrightarrow> r \<noteq> Panic \<and> (\<forall>out' rem'. r = Fine (out', rem') \<longrightarrow>
     (\<exists>k new. out' = out @ k \<and> rem' = rem @ new \<and> Q (length k + removed_sum new) \<and> S k))"

lemma adds_failed [simp]: "adds (Failed e) out rem Q S"
  by (simp add: adds_def)

lemma adds_fine: "Q (length k + removed_sum new) \<Longrightarrow> S k \<Longrightarrow> adds (Fine (out @ k, rem @ new)) out rem Q S"
  by (auto simp: adds_def)

lemma adds_step:
  assumes "adds r (out @ k1) (rem @ n1) Q' S'"
    and "\<And>m. Q' m \<Longrightarrow> Q (length k1 + removed_sum n1 + m)" and "\<And>k. S' k \<Longrightarrow> S (k1 @ k)"
  shows "adds r out rem Q S"
  unfolding adds_def
proof (intro conjI allI impI)
  show "r \<noteq> Panic" using assms(1) by (simp add: adds_def)
next
  fix out' rem' assume "r = Fine (out', rem')"
  with assms(1) obtain k new where "out' = (out @ k1) @ k" "rem' = (rem @ n1) @ new"
    "Q' (length k + removed_sum new)" "S' k"
    unfolding adds_def by blast
  with assms(2) [of "length k + removed_sum new"] assms(3) [of k]
  show "\<exists>k new. out' = out @ k \<and> rem' = rem @ new \<and> Q (length k + removed_sum new) \<and> S k"
    by (intro exI [of _ "k1 @ k"] exI [of _ "n1 @ new"]) (simp add: ac_simps)
qed

lemma adds_cases:
  assumes "adds r out rem Q S"
  obtains e where "r = Failed e"
    | k new where "r = Fine (out @ k, rem @ new)" "Q (length k + removed_sum new)" "S k"
  using assms by (cases r) (auto simp: adds_def)

text \<open>The final wrapping of the two accumulators.\<close>

definition wrap :: "media_kind \<Rightarrow> (byte list \<times> removed list) outcome \<Rightarrow> stripped outcome" where
  "wrap k r = (case r of
       Fine (out, rem) \<Rightarrow> Fine \<lparr>st_kind = k, st_bytes = out, st_removed = rem\<rparr>
     | Failed e \<Rightarrow> Failed e
     | Panic \<Rightarrow> Panic)"

lemma wrap_simps [simp]:
  "wrap k (Fine (out, rem)) = Fine \<lparr>st_kind = k, st_bytes = out, st_removed = rem\<rparr>"
  "wrap k (Failed e) = Failed e"
  by (simp_all add: wrap_def)

section \<open>The contract of a format\<close>

locale stripper =
  fixes recog :: "byte list \<Rightarrow> bool"
    and strip1 :: "byte list \<Rightarrow> stripped outcome"
    and least :: nat
  assumes total: "recog bs \<Longrightarrow> strip1 bs \<noteq> Panic"
    and spent: "recog bs \<Longrightarrow> strip1 bs = Fine s \<Longrightarrow> length (st_bytes s) + removed_bytes s \<le> length bs"
    and again: "recog bs \<Longrightarrow> strip1 bs = Fine s \<Longrightarrow> least < length (st_bytes s) \<Longrightarrow>
      recog (st_bytes s) \<and> strip1 (st_bytes s) = Fine (s\<lparr>st_removed := []\<rparr>)"
begin

lemma again_clean:
  assumes "recog bs" and "strip1 bs = Fine s" and "least < length (st_bytes s)"
  shows "recog (st_bytes s) \<and>
    (\<exists>s'. strip1 (st_bytes s) = Fine s' \<and> st_bytes s' = st_bytes s \<and> was_already_clean s')"
  using again [OF assms] by (simp add: was_already_clean_def)

end

text \<open>A format that copies what it keeps byte for byte and drops nothing it does not report.\<close>

locale exact_stripper = stripper +
  assumes exact: "recog bs \<Longrightarrow> strip1 bs = Fine s \<Longrightarrow> length (st_bytes s) + removed_bytes s = length bs"

end
