(* ===== verification/Media_Png.thy ===== *)
theory Media_Png
  imports Media_Kind
begin

text \<open>PNG (\<^verbatim>\<open>core/ddirc-core/src/media/png.rs\<close>): the chunk list behind the signature.\<close>

definition SIGNATURE :: nat where
  "SIGNATURE = 8"

definition png_signature :: "byte list" where
  "png_signature = 0x89 # B ''PNG'' @ [13, 10, 26, 10]"

definition png_describe :: "byte list \<Rightarrow> ustring option" where
  "png_describe kind =
     (if kind = B ''tEXt'' \<or> kind = B ''zTXt'' then Some (U ''text'')
      else if kind = B ''iTXt'' then Some (U ''text'')
      else if kind = B ''eXIf'' then Some (U ''EXIF'')
      else if kind = B ''tIME'' then Some (U ''timestamp'')
      else None)"

function png_loop ::
  "byte list \<Rightarrow> nat \<Rightarrow> byte list \<Rightarrow> removed list \<Rightarrow> (byte list \<times> removed list) outcome" where
  "png_loop bytes i out removed =
     (if i < length bytes then
        case get_range bytes i (i + 4) of
          None \<Rightarrow> Failed (malformed Png (U ''truncated chunk length''))
        | Some b \<Rightarrow>
          case get_range bytes (i + 4) (i + 8) of
            None \<Rightarrow> Failed (malformed Png (U ''truncated chunk type''))
          | Some kind \<Rightarrow>
            case checked_add (be32 b) 12 of
              None \<Rightarrow> Failed (malformed Png (U ''impossible chunk length''))
            | Some whole \<Rightarrow>
              case get_range bytes i (i + whole) of
                None \<Rightarrow> Failed (malformed Png (U ''chunk runs past the end''))
              | Some chunk \<Rightarrow>
                let (out, removed) =
                      (case png_describe kind of
                         Some what \<Rightarrow> (out, removed @ [\<lparr>rv_what = what, rv_bytes = whole\<rparr>])
                       | None \<Rightarrow> (out @ chunk, removed))
                in if kind = B ''IEND''
                   then Fine (out, if i + whole < length bytes
                                   then removed @ [\<lparr>rv_what = U ''data after the end of the image'',
                                                    rv_bytes = length bytes - (i + whole)\<rparr>]
                                   else removed)
                   else png_loop bytes (i + whole) out removed
      else Fine (out, removed))"
  by pat_completeness auto
termination
  by (relation "measure (\<lambda>(bytes, i, _, _). length bytes - i)")
    (auto simp: checked_add_def split: if_splits)

declare png_loop.simps [simp del]

definition png_strip :: "byte list \<Rightarrow> stripped outcome" where
  "png_strip bytes =
     (case get_range bytes 0 SIGNATURE of
        None \<Rightarrow> Panic
      | Some sig \<Rightarrow>
        if length bytes \<le> SIGNATURE then Failed (malformed Png (U ''no chunks after the signature''))
        else wrap Png (png_loop bytes SIGNATURE sig []))"

section \<open>Chunks\<close>

text \<open>
  A whole chunk at an offset: its bytes, whose first four give its length and the next four its type.
\<close>

definition png_chunk :: "byte list \<Rightarrow> byte list \<Rightarrow> bool" where
  "png_chunk chunk kind \<longleftrightarrow> 12 \<le> length chunk \<and> be32 (take 4 chunk) + 12 = length chunk
     \<and> length chunk \<le> media_usize_max \<and> kind = take 4 (drop 4 chunk)"

lemma png_loop_cases:
  obtains (stop) "length bytes \<le> i" "png_loop bytes i out removed = Fine (out, removed)"
    | (bad) e where "png_loop bytes i out removed = Failed e"
    | (chunk) chunk kind out' removed' where "i < length bytes"
        "get_range bytes i (i + length chunk) = Some chunk" "png_chunk chunk kind"
        "(out', removed') = (case png_describe kind of
           Some what \<Rightarrow> (out, removed @ [\<lparr>rv_what = what, rv_bytes = length chunk\<rparr>])
         | None \<Rightarrow> (out @ chunk, removed))"
        "png_loop bytes i out removed = (if kind = B ''IEND''
              then Fine (out', if i + length chunk < length bytes
                   then removed' @ [\<lparr>rv_what = U ''data after the end of the image'',
                                     rv_bytes = length bytes - (i + length chunk)\<rparr>]
                   else removed')
              else png_loop bytes (i + length chunk) out' removed')"
proof (cases "i < length bytes")
  case False
  with stop show ?thesis by (simp add: png_loop.simps [of bytes i])
next
  case i: True
  show ?thesis
  proof (cases "get_range bytes i (i + 4)")
    case None
    with i bad show ?thesis by (simp add: png_loop.simps [of bytes i])
  next
    case b: (Some b)
    show ?thesis
    proof (cases "get_range bytes (i + 4) (i + 8)")
      case None
      with i b bad show ?thesis by (simp add: png_loop.simps [of bytes i])
    next
      case kind: (Some kind)
      show ?thesis
      proof (cases "checked_add (be32 b) 12")
        case None
        with i b kind bad show ?thesis by (simp add: png_loop.simps [of bytes i])
      next
        case sum: (Some n)
        then have n: "n = be32 b + 12" "n \<le> media_usize_max" by (auto simp: checked_add_def split: if_splits)
        show ?thesis
        proof (cases "get_range bytes i (i + n)")
          case None
          with i b kind sum bad show ?thesis by (simp add: png_loop.simps [of bytes i])
        next
          case c: (Some chunk)
          have len: "length chunk = n" using get_range_length [OF c] by simp
          have "get_range chunk 0 4 = Some b" "get_range chunk 4 8 = Some kind"
            using get_range_sub [OF c, of 0 4] get_range_sub [OF c, of 4 8] b kind n by simp_all
          then have "b = take 4 chunk" "kind = take 4 (drop 4 chunk)"
            by (auto simp: get_range_Some)
          with len n have "png_chunk chunk kind" unfolding png_chunk_def by (metis le_add2)
          moreover obtain out' removed' where o: "(out', removed') = (case png_describe kind of
              Some what \<Rightarrow> (out, removed @ [\<lparr>rv_what = what, rv_bytes = length chunk\<rparr>])
            | None \<Rightarrow> (out @ chunk, removed))"
            by (metis surj_pair)
          moreover have "png_loop bytes i out removed = (if kind = B ''IEND''
              then Fine (out', if i + length chunk < length bytes
                   then removed' @ [\<lparr>rv_what = U ''data after the end of the image'',
                                     rv_bytes = length bytes - (i + length chunk)\<rparr>]
                   else removed')
              else png_loop bytes (i + length chunk) out' removed')"
            by (subst png_loop.simps)
              (simp only: i b kind sum c len option.case if_True Let_def o [symmetric, unfolded len] prod.case)
          ultimately show ?thesis using chunk i c len by blast
        qed
      qed
    qed
  qed
qed

lemma png_chunk_again:
  assumes "png_chunk chunk kind" and "png_describe kind = None"
  shows "png_loop (pre @ chunk @ rest) (length pre) out removed =
    (if kind = B ''IEND''
     then Fine (out @ chunk, if rest \<noteq> [] then removed @ [\<lparr>rv_what = U ''data after the end of the image'',
                                       rv_bytes = length rest\<rparr>] else removed)
     else png_loop (pre @ chunk @ rest) (length pre + length chunk) (out @ chunk) removed)"
proof -
  have l: "12 \<le> length chunk" "checked_add (be32 (take 4 chunk)) 12 = Some (length chunk)"
    and k: "kind = take 4 (drop 4 chunk)"
    using assms(1) by (auto simp: png_chunk_def checked_add_def)
  then have "get_range (chunk @ rest) 0 4 = Some (take 4 chunk)"
    "get_range (chunk @ rest) 4 8 = Some (take 4 (drop 4 chunk))"
    "get_range (chunk @ rest) 0 (length chunk) = Some chunk"
    by (simp_all add: get_range_def)
  moreover have "png_describe (B ''IEND'') = None" "chunk \<noteq> []"
    using l by (auto simp: png_describe_def)
  ultimately show ?thesis
    using l k assms(2)
    by (simp add: png_loop.simps [of "pre @ chunk @ rest" "length pre"] del: B_Cons U_Cons)
qed

text \<open>Going over kept chunks alone, the loop keeps them all.\<close>

definition png_kept :: "byte list \<Rightarrow> bool" where
  "png_kept k \<longleftrightarrow> (\<forall>pre out rem. png_loop (pre @ k) (length pre) out rem = Fine (out @ k, rem))"

lemma png_kept_Nil: "png_kept []"
  by (simp add: png_kept_def png_loop.simps)

lemma png_kept_chunk:
  assumes "png_chunk chunk kind" and "png_describe kind = None"
    and "if kind = B ''IEND'' then k = [] else png_kept k"
  shows "png_kept (chunk @ k)"
proof -
  have "png_loop (pre @ chunk @ k) (length pre) out rem = Fine (out @ chunk @ k, rem)" for pre out rem
  proof (cases "kind = B ''IEND''")
    case True
    with assms(3) png_chunk_again [OF assms(1, 2), of pre k out rem] show ?thesis by simp
  next
    case False
    with assms(3) have "png_loop ((pre @ chunk) @ k) (length (pre @ chunk)) (out @ chunk) rem
        = Fine ((out @ chunk) @ k, rem)"
      unfolding png_kept_def by metis
    with False png_chunk_again [OF assms(1, 2), of pre k out rem] show ?thesis by simp
  qed
  then show ?thesis by (simp add: png_kept_def)
qed

lemma png_loop_adds:
  "i \<le> length bytes \<Longrightarrow> adds (png_loop bytes i out rem) out rem (\<lambda>m. m = length bytes - i) png_kept"
proof (induction "length bytes - i" arbitrary: i out rem rule: less_induct)
  case less
  show ?case
  proof (cases rule: png_loop_cases [of bytes i out rem])
    case stop
    with less.prems adds_fine [of _ "[]" "[]"] png_kept_Nil show ?thesis by fastforce
  next
    case bad
    then show ?thesis by simp
  next
    case (chunk chunk kind out1 rem1)
    have i1: "i + length chunk \<le> length bytes" and c12: "12 \<le> length chunk"
      using chunk(2, 3) by (auto simp: get_range_Some png_chunk_def)
    define k1 where "k1 = (case png_describe kind of Some _ \<Rightarrow> [] | None \<Rightarrow> chunk)"
    define n1 where "n1 = (case png_describe kind of
      Some what \<Rightarrow> [\<lparr>rv_what = what, rv_bytes = length chunk\<rparr>] | None \<Rightarrow> [])"
    have k1: "out1 = out @ k1" "rem1 = rem @ n1" "length k1 + removed_sum n1 = length chunk"
      using chunk(4) by (auto simp: k1_def n1_def split: option.splits)
    let ?tail = "if i + length chunk < length bytes
      then [\<lparr>rv_what = U ''data after the end of the image'', rv_bytes = length bytes - (i + length chunk)\<rparr>]
      else []"
    show ?thesis
    proof (cases "kind = B ''IEND''")
      case True
      then have d: "png_describe kind = None" by (simp add: png_describe_def)
      with True png_kept_chunk [OF chunk(3) d, of "[]"] have "png_kept k1" by (simp add: k1_def)
      moreover have "length k1 + removed_sum (n1 @ ?tail) = length bytes - i"
        using k1(3) i1 by (cases "i + length chunk < length bytes") (auto simp: le_diff_conv)
      ultimately have "adds (Fine (out @ k1, rem @ n1 @ ?tail)) out rem (\<lambda>m. m = length bytes - i) png_kept"
        by (rule adds_fine [rotated])
      moreover have "png_loop bytes i out rem = Fine (out @ k1, rem @ n1 @ ?tail)"
        using chunk(5) True k1 by simp
      ultimately show ?thesis by simp
    next
      case False
      have "adds (png_loop bytes (i + length chunk) out1 rem1) out1 rem1
        (\<lambda>m. m = length bytes - (i + length chunk)) png_kept"
        by (rule less.hyps [OF _ i1]) (use chunk(1) c12 in linarith)
      moreover have "png_kept k \<Longrightarrow> png_kept (k1 @ k)" for k
        using png_kept_chunk [OF chunk(3), of k] False by (simp add: k1_def split: option.splits)
      ultimately show ?thesis
        using chunk(5) False k1 i1 adds_step [of _ out k1 rem n1] by simp
    qed
  qed
qed

section \<open>The contract\<close>

abbreviation is_png :: "byte list \<Rightarrow> bool" where
  "is_png bs \<equiv> prefix png_signature bs"

lemma png_strip_eq:
  "png_strip (png_signature @ k) =
     (if k = [] then Failed (malformed Png (U ''no chunks after the signature''))
      else wrap Png (png_loop (png_signature @ k) 8 png_signature []))"
  by (simp add: png_strip_def SIGNATURE_def get_range_def png_signature_def)

interpretation png: exact_stripper is_png png_strip 8
proof
  fix bs s
  assume "is_png bs"
  then obtain rest where bs: "bs = png_signature @ rest" by (auto simp: prefix_def)
  have sig: "length png_signature = 8" by (simp add: png_signature_def)
  then have "adds (png_loop bs 8 png_signature []) png_signature [] (\<lambda>m. m = length bs - 8) png_kept"
    by (intro png_loop_adds) (simp add: bs)
  note loop = adds_cases [OF this]
  show "png_strip bs \<noteq> Panic"
    by (rule loop) (auto simp: bs png_strip_eq)
  assume s: "png_strip bs = Fine s"
  then have rest: "rest \<noteq> []" by (auto simp: bs png_strip_eq)
  obtain k new where k: "png_loop bs 8 png_signature [] = Fine (png_signature @ k, new)"
    "length k + removed_sum new = length bs - 8" "png_kept k"
    by (rule loop) (use s rest in \<open>auto simp: bs png_strip_eq\<close>)
  then have s': "s = \<lparr>st_kind = Png, st_bytes = png_signature @ k, st_removed = new\<rparr>"
    using s rest by (simp add: bs png_strip_eq)
  then show eq: "length (st_bytes s) + removed_bytes s = length bs"
    using k(2) sig by (simp add: removed_bytes_def bs)
  then show "length (st_bytes s) + removed_bytes s \<le> length bs" by simp
  assume "8 < length (st_bytes s)"
  then have "k \<noteq> []" using s' sig by auto
  moreover have "png_loop (png_signature @ k) 8 png_signature [] = Fine (png_signature @ k, [])"
    using k(3) sig unfolding png_kept_def by metis
  ultimately show "is_png (st_bytes s) \<and> png_strip (st_bytes s) = Fine (s\<lparr>st_removed := []\<rparr>)"
    using s' by (simp add: png_strip_eq)
qed

end
