(* ===== verification/Media_Webp.thy ===== *)
theory Media_Webp
  imports Media_Kind
begin

text \<open>
  WebP (\<^verbatim>\<open>core/ddirc-core/src/media/webp.rs\<close>): the chunks of a RIFF container, with the flags of
  the extended header corrected and the container length rebuilt.
\<close>

unbundle bit_operations_syntax

definition WEBP_HEADER :: nat where
  "WEBP_HEADER = 12"

definition FLAG_EXIF :: byte where
  "FLAG_EXIF = 0x08"

definition FLAG_XMP :: byte where
  "FLAG_XMP = 0x04"

definition webp_describe :: "byte list \<Rightarrow> ustring option" where
  "webp_describe kind =
     (if kind = B ''EXIF'' then Some (U ''EXIF'')
      else if kind = B ''XMP '' then Some (U ''XMP'')
      else None)"

definition clear_flags :: "byte list \<Rightarrow> byte list \<Rightarrow> byte list" where
  "clear_flags kind chunk =
     (if kind = B ''VP8X'' \<and> 8 < length chunk
      then chunk[8 := chunk ! 8 AND NOT (FLAG_EXIF OR FLAG_XMP)] else chunk)"

function webp_loop ::
  "byte list \<Rightarrow> nat \<Rightarrow> byte list \<Rightarrow> removed list \<Rightarrow> (byte list \<times> removed list) outcome" where
  "webp_loop bytes i payload removed =
     (if i < length bytes then
        case get_range bytes i (i + 4) of
          None \<Rightarrow> Failed (malformed WebP (U ''truncated chunk type''))
        | Some kind \<Rightarrow>
          case get_range bytes (i + 4) (i + 8) of
            None \<Rightarrow> Failed (malformed WebP (U ''truncated chunk size''))
          | Some b \<Rightarrow>
            let sz = le32 b; padded = sz + sz mod 2
            in case checked_add padded 8 of
              None \<Rightarrow> Failed (malformed WebP (U ''impossible chunk size''))
            | Some whole \<Rightarrow>
              case get_range bytes i (i + whole) of
                None \<Rightarrow> Failed (malformed WebP (U ''chunk runs past the end''))
              | Some chunk \<Rightarrow>
                let (payload, removed) =
                      (case webp_describe kind of
                         Some what \<Rightarrow> (payload, removed @ [\<lparr>rv_what = what, rv_bytes = whole\<rparr>])
                       | None \<Rightarrow> (payload @ clear_flags kind chunk, removed))
                in webp_loop bytes (i + whole) payload removed
      else Fine (payload, removed))"
  by pat_completeness auto
termination
  by (relation "measure (\<lambda>(bytes, i, _, _). length bytes - i)")
    (auto simp: checked_add_def split: if_splits)

declare webp_loop.simps [simp del]

text \<open>\<open>(n as u32).to_le_bytes()\<close>: the conversion and each byte wrap around.\<close>

definition u32_le_bytes :: "nat \<Rightarrow> byte list" where
  "u32_le_bytes n = [of_nat n, of_nat (n div 256), of_nat (n div 65536), of_nat (n div 16777216)]"

definition webp_rebuild :: "byte list \<Rightarrow> byte list" where
  "webp_rebuild payload = B ''RIFF'' @ u32_le_bytes (length payload + 4) @ B ''WEBP'' @ payload"

definition webp_strip :: "byte list \<Rightarrow> stripped outcome" where
  "webp_strip bytes =
     (if length bytes \<le> WEBP_HEADER then Failed (malformed WebP (U ''no chunks after the header''))
      else case webp_loop bytes WEBP_HEADER [] [] of
          Fine (payload, removed) \<Rightarrow> wrap WebP (Fine (webp_rebuild payload, removed))
        | Failed e \<Rightarrow> Failed e
        | Panic \<Rightarrow> Panic)"

section \<open>Chunks\<close>

definition webp_chunk :: "byte list \<Rightarrow> byte list \<Rightarrow> bool" where
  "webp_chunk chunk kind \<longleftrightarrow> 8 \<le> length chunk
     \<and> (let sz = le32 (take 4 (drop 4 chunk)) in sz + sz mod 2 + 8 = length chunk)
     \<and> length chunk \<le> media_usize_max \<and> kind = take 4 chunk"

lemma webp_loop_cases:
  obtains (stop) "length bytes \<le> i" "webp_loop bytes i payload rem = Fine (payload, rem)"
    | (bad) e where "webp_loop bytes i payload rem = Failed e"
    | (chunk) chunk kind payload' rem' where "i < length bytes"
        "get_range bytes i (i + length chunk) = Some chunk" "webp_chunk chunk kind"
        "(payload', rem') = (case webp_describe kind of
           Some what \<Rightarrow> (payload, rem @ [\<lparr>rv_what = what, rv_bytes = length chunk\<rparr>])
         | None \<Rightarrow> (payload @ clear_flags kind chunk, rem))"
        "webp_loop bytes i payload rem = webp_loop bytes (i + length chunk) payload' rem'"
proof (cases "i < length bytes")
  case False
  with stop show ?thesis by (simp add: webp_loop.simps [of bytes i])
next
  case i: True
  show ?thesis
  proof (cases "get_range bytes i (i + 4)")
    case None
    with i bad show ?thesis by (simp add: webp_loop.simps [of bytes i])
  next
    case kind: (Some kind)
    show ?thesis
    proof (cases "get_range bytes (i + 4) (i + 8)")
      case None
      with i kind bad show ?thesis by (simp add: webp_loop.simps [of bytes i])
    next
      case b: (Some b)
      show ?thesis
      proof (cases "checked_add (le32 b + le32 b mod 2) 8")
        case None
        with i b kind bad show ?thesis by (simp add: webp_loop.simps [of bytes i] Let_def)
      next
        case sum: (Some n)
        then have n: "n = le32 b + le32 b mod 2 + 8" "n \<le> media_usize_max"
          by (auto simp: checked_add_def split: if_splits)
        show ?thesis
        proof (cases "get_range bytes i (i + n)")
          case None
          with i b kind sum bad show ?thesis by (simp add: webp_loop.simps [of bytes i] Let_def)
        next
          case c: (Some chunk)
          have len: "length chunk = n" using get_range_length [OF c] by simp
          have "get_range chunk 0 4 = Some kind" "get_range chunk 4 8 = Some b"
            using get_range_sub [OF c, of 0 4] get_range_sub [OF c, of 4 8] b kind n by simp_all
          then have "kind = take 4 chunk" "b = take 4 (drop 4 chunk)"
            by (auto simp: get_range_Some)
          with len n have "webp_chunk chunk kind" unfolding webp_chunk_def Let_def by (metis le_add2)
          moreover obtain payload' rem' where o: "(payload', rem') = (case webp_describe kind of
              Some what \<Rightarrow> (payload, rem @ [\<lparr>rv_what = what, rv_bytes = length chunk\<rparr>])
            | None \<Rightarrow> (payload @ clear_flags kind chunk, rem))"
            by (metis surj_pair)
          moreover have "webp_loop bytes i payload rem = webp_loop bytes (i + length chunk) payload' rem'"
            by (subst webp_loop.simps)
              (simp only: i b kind sum c len option.case if_True Let_def o [symmetric, unfolded len] prod.case)
          ultimately show ?thesis using chunk i c len by blast
        qed
      qed
    qed
  qed
qed

lemma length_clear_flags [simp]: "length (clear_flags kind chunk) = length chunk"
  by (simp add: clear_flags_def)

lemma clear_flags_idem [simp]: "clear_flags kind (clear_flags kind chunk) = clear_flags kind chunk"
  by (simp add: clear_flags_def)

lemma webp_chunk_clear: "webp_chunk chunk kind \<Longrightarrow> webp_chunk (clear_flags kind chunk) kind"
  unfolding webp_chunk_def clear_flags_def by (auto simp: Let_def drop_update_swap)

lemma webp_chunk_again:
  assumes "webp_chunk chunk kind" and "webp_describe kind = None"
  shows "webp_loop (pre @ chunk @ rest) (length pre) out rem =
    webp_loop (pre @ chunk @ rest) (length pre + length chunk) (out @ clear_flags kind chunk) rem"
proof -
  let ?sz = "le32 (take 4 (drop 4 chunk))"
  have l: "8 \<le> length chunk" "checked_add (?sz + ?sz mod 2) 8 = Some (length chunk)"
    and k: "kind = take 4 chunk"
    using assms(1) by (auto simp: webp_chunk_def checked_add_def Let_def)
  then have g: "get_range (chunk @ rest) 4 8 = Some (take 4 (drop 4 chunk))"
    "get_range (chunk @ rest) 0 4 = Some kind"
    "get_range (chunk @ rest) 0 (length chunk) = Some chunk" and ne: "length pre < length (pre @ chunk @ rest)"
    by (auto simp: get_range_def)
  show ?thesis
    by (subst webp_loop.simps)
      (simp only: ne get_range_here get_range_skip g l(2) assms(2) if_True option.case Let_def prod.case)
qed

definition webp_kept :: "byte list \<Rightarrow> bool" where
  "webp_kept k \<longleftrightarrow> (\<forall>pre out rem. webp_loop (pre @ k) (length pre) out rem = Fine (out @ k, rem))"

lemma webp_kept_Nil: "webp_kept []"
  by (simp add: webp_kept_def webp_loop.simps)

lemma webp_kept_chunk:
  assumes "webp_chunk chunk kind" and "webp_describe kind = None" and "webp_kept k"
  shows "webp_kept (clear_flags kind chunk @ k)"
proof -
  let ?c = "clear_flags kind chunk"
  have "webp_loop (pre @ ?c @ k) (length pre) out rem = Fine (out @ ?c @ k, rem)" for pre out rem
  proof -
    have "webp_loop ((pre @ ?c) @ k) (length (pre @ ?c)) (out @ ?c) rem = Fine ((out @ ?c) @ k, rem)"
      using assms(3) unfolding webp_kept_def by metis
    then show ?thesis
      using webp_chunk_again [OF webp_chunk_clear [OF assms(1)] assms(2), of pre k out rem] by simp
  qed
  then show ?thesis by (simp add: webp_kept_def)
qed

lemma webp_loop_adds:
  "i \<le> length bytes \<Longrightarrow> adds (webp_loop bytes i out rem) out rem (\<lambda>m. m = length bytes - i) webp_kept"
proof (induction "length bytes - i" arbitrary: i out rem rule: less_induct)
  case less
  show ?case
  proof (cases rule: webp_loop_cases [of bytes i out rem])
    case stop
    with less.prems adds_fine [of _ "[]" "[]"] webp_kept_Nil show ?thesis by fastforce
  next
    case bad
    then show ?thesis by simp
  next
    case (chunk chunk kind out1 rem1)
    have i1: "i + length chunk \<le> length bytes" and c8: "8 \<le> length chunk"
      using chunk(2, 3) by (auto simp: get_range_Some webp_chunk_def)
    define k1 where "k1 = (case webp_describe kind of Some _ \<Rightarrow> [] | None \<Rightarrow> clear_flags kind chunk)"
    define n1 where "n1 = (case webp_describe kind of
      Some what \<Rightarrow> [\<lparr>rv_what = what, rv_bytes = length chunk\<rparr>] | None \<Rightarrow> [])"
    have k1: "out1 = out @ k1" "rem1 = rem @ n1" "length k1 + removed_sum n1 = length chunk"
      using chunk(4) by (auto simp: k1_def n1_def split: option.splits)
    have "adds (webp_loop bytes (i + length chunk) out1 rem1) out1 rem1
      (\<lambda>m. m = length bytes - (i + length chunk)) webp_kept"
      by (rule less.hyps [OF _ i1]) (use chunk(1) c8 in linarith)
    moreover have "webp_kept k \<Longrightarrow> webp_kept (k1 @ k)" for k
      using webp_kept_chunk [OF chunk(3), of k] by (simp add: k1_def split: option.splits)
    ultimately show ?thesis
      using chunk(5) k1 i1 adds_step [of _ out k1 rem n1] by simp
  qed
qed

section \<open>The contract\<close>

definition is_webp :: "byte list \<Rightarrow> bool" where
  "is_webp bs \<longleftrightarrow> prefix (B ''RIFF'') bs \<and> get_range bs 8 12 = Some (B ''WEBP'')"

lemma webp_rebuild_is: "is_webp (webp_rebuild k)" and length_webp_rebuild: "length (webp_rebuild k) = 12 + length k"
  by (simp_all add: is_webp_def webp_rebuild_def u32_le_bytes_def get_range_def)

interpretation webp: exact_stripper is_webp webp_strip 12
proof
  fix bs s
  assume bs: "is_webp bs"
  show np: "webp_strip bs \<noteq> Panic"
  proof (cases "length bs \<le> 12")
    case False
    then have "adds (webp_loop bs 12 [] []) [] [] (\<lambda>m. m = length bs - 12) webp_kept"
      by (intro webp_loop_adds) simp
    with False show ?thesis
      by (auto simp: webp_strip_def WEBP_HEADER_def elim: adds_cases)
  qed (simp add: webp_strip_def WEBP_HEADER_def)
  assume s: "webp_strip bs = Fine s"
  then have l: "12 < length bs" by (auto simp: webp_strip_def WEBP_HEADER_def split: if_splits)
  then have "adds (webp_loop bs 12 [] []) [] [] (\<lambda>m. m = length bs - 12) webp_kept"
    by (intro webp_loop_adds) simp
  then obtain k new where k: "webp_loop bs 12 [] [] = Fine (k, new)"
    "length k + removed_sum new = length bs - 12" "webp_kept k"
    by (rule adds_cases) (use s l in \<open>auto simp: webp_strip_def WEBP_HEADER_def\<close>)
  then have s': "s = \<lparr>st_kind = WebP, st_bytes = webp_rebuild k, st_removed = new\<rparr>"
    using s l by (simp add: webp_strip_def WEBP_HEADER_def)
  then show "length (st_bytes s) + removed_bytes s = length bs"
    using k(2) l by (simp add: removed_bytes_def length_webp_rebuild)
  then show "length (st_bytes s) + removed_bytes s \<le> length bs" by simp
  assume long: "12 < length (st_bytes s)"
  have "webp_loop (take 12 (webp_rebuild k) @ k) (length (take 12 (webp_rebuild k))) [] [] = Fine ([] @ k, [])"
    using k(3) unfolding webp_kept_def by metis
  moreover have "take 12 (webp_rebuild k) @ k = webp_rebuild k" "length (take 12 (webp_rebuild k)) = 12"
    by (simp_all add: webp_rebuild_def u32_le_bytes_def)
  ultimately have "webp_loop (webp_rebuild k) 12 [] [] = Fine (k, [])" by simp
  then show "is_webp (st_bytes s) \<and> webp_strip (st_bytes s) = Fine (s\<lparr>st_removed := []\<rparr>)"
    using long s' by (simp add: webp_rebuild_is webp_strip_def WEBP_HEADER_def)
qed

end
