(* ===== verification/Media_Jpeg.thy ===== *)
theory Media_Jpeg
  imports Media_Kind
begin

text \<open>
  JPEG (\<^verbatim>\<open>core/ddirc-core/src/media/jpeg.rs\<close>): the chain of marker segments up to the start of
  the scan, behind which everything is copied.
\<close>

definition is_standalone :: "byte \<Rightarrow> bool" where
  "is_standalone marker \<longleftrightarrow> marker = 0x01 \<or> 0xD0 \<le> marker \<and> marker \<le> 0xD8"

definition is_rendering_segment :: "byte \<Rightarrow> byte list \<Rightarrow> bool" where
  "is_rendering_segment marker payload \<longleftrightarrow>
     (if marker = 0xE0 then prefix (B ''JFIF'' @ [0]) payload
      else if marker = 0xE2 then prefix (B ''ICC_PROFILE'' @ [0]) payload
      else if marker = 0xEE then prefix (B ''Adobe'') payload
      else False)"

definition jpeg_describe :: "byte \<Rightarrow> byte list \<Rightarrow> ustring" where
  "jpeg_describe marker payload =
     (if marker = 0xFE then U ''comment''
      else if marker = 0xE0 then U ''thumbnail''
      else if marker = 0xE1 \<and> prefix (B ''Exif'' @ [0, 0]) payload then U ''EXIF''
      else if marker = 0xE1 \<and> prefix (B ''http://ns.adobe.com/xap/'') payload then U ''XMP''
      else if marker = 0xE1 then U ''application data''
      else if marker = 0xED then U ''Photoshop/IPTC data''
      else if marker = 0xE2 then U ''multi-picture data''
      else U ''application data'')"

definition is_metadata :: "byte \<Rightarrow> byte list \<Rightarrow> bool" where
  "is_metadata marker payload \<longleftrightarrow>
     (marker = 0xFE \<or> 0xE0 \<le> marker \<and> marker \<le> 0xEF) \<and> \<not> is_rendering_segment marker payload"

text \<open>The loop over fill bytes.\<close>

function skip_fill :: "byte list \<Rightarrow> nat \<Rightarrow> nat" where
  "skip_fill bytes i = (if get_at bytes i = Some 0xFF then skip_fill bytes (i + 1) else i)"
  by pat_completeness auto
termination
  by (relation "measure (\<lambda>(bytes, i). length bytes - i)") (auto simp: get_at_def split: if_splits)

declare skip_fill.simps [simp del]

lemma skip_fill_ge: "i \<le> skip_fill bytes i"
  by (induction bytes i rule: skip_fill.induct) (subst skip_fill.simps, auto)

lemma skip_fill_end: "get_at bytes (skip_fill bytes i) \<noteq> Some 0xFF"
  by (induction bytes i rule: skip_fill.induct) (subst skip_fill.simps, auto)

function jpeg_loop ::
  "byte list \<Rightarrow> nat \<Rightarrow> byte list \<Rightarrow> removed list \<Rightarrow> (byte list \<times> removed list) outcome" where
  "jpeg_loop bytes start out removed =
     (let i = skip_fill bytes start
      in if i = start then Failed (malformed Jpeg (U ''expected a marker''))
         else case get_at bytes i of
           None \<Rightarrow> Failed (malformed Jpeg (U ''truncated at a marker''))
         | Some marker \<Rightarrow>
           if is_standalone marker then jpeg_loop bytes (i + 1) (out @ [0xFF, marker]) removed
           else case get_range bytes (i + 1) (i + 1 + 2) of
             None \<Rightarrow> Failed (malformed Jpeg (U ''truncated segment length''))
           | Some b \<Rightarrow>
             if be16 b < 2 then Failed (malformed Jpeg (U ''impossible segment length''))
             else case get_range bytes (i + 1 + 2) (i + 1 + be16 b) of
               None \<Rightarrow> Failed (malformed Jpeg (U ''segment runs past the end''))
             | Some payload \<Rightarrow>
               if marker = 0xDA then
                 case get_range bytes (i + 1) (length bytes) of
                   None \<Rightarrow> Panic
                 | Some rest \<Rightarrow> Fine (out @ [0xFF, marker] @ rest, removed)
               else if is_metadata marker payload then
                 jpeg_loop bytes (i + 1 + be16 b) out
                   (removed @ [\<lparr>rv_what = jpeg_describe marker payload, rv_bytes = be16 b + 2\<rparr>])
               else
                 case get_range bytes (i + 1) (i + 1 + be16 b) of
                   None \<Rightarrow> Panic
                 | Some seg \<Rightarrow>
                   jpeg_loop bytes (i + 1 + be16 b) (out @ [0xFF, marker] @ seg) removed)"
  by pat_completeness auto
termination
proof (relation "measure (\<lambda>(bytes, i, _, _). length bytes - i)", goal_cases)
  case (2 bytes start)
  then show ?case using skip_fill_ge [of start bytes] by (auto simp: get_at_Some)
next
  case (3 bytes start)
  then show ?case using skip_fill_ge [of start bytes] by (auto simp: get_at_Some)
next
  case (4 bytes start)
  then show ?case using skip_fill_ge [of start bytes] by (auto simp: get_at_Some)
qed simp

declare jpeg_loop.simps [simp del]

definition jpeg_strip :: "byte list \<Rightarrow> stripped outcome" where
  "jpeg_strip bytes =
     (case get_range bytes 0 2 of
        None \<Rightarrow> Panic
      | Some soi \<Rightarrow> wrap Jpeg (jpeg_loop bytes 2 soi []))"

section \<open>Segments\<close>

text \<open>A segment behind its marker: two bytes of length, which counts itself, and the payload.\<close>

definition jpeg_segment :: "byte list \<Rightarrow> bool" where
  "jpeg_segment seg \<longleftrightarrow> 2 \<le> length seg \<and> be16 (take 2 seg) = length seg"

lemma jpeg_loop_cases:
  obtains (bad) e where "jpeg_loop bytes i out rem = Failed e"
    | (alone) marker j where "i + 2 \<le> j" "j \<le> length bytes" "is_standalone marker" "marker \<noteq> 0xFF"
        "jpeg_loop bytes i out rem = jpeg_loop bytes j (out @ [0xFF, marker]) rem"
    | (scan) rest j where "i + 2 \<le> j" "j + length rest = length bytes" "2 \<le> be16 (take 2 rest)"
        "be16 (take 2 rest) \<le> length rest"
        "jpeg_loop bytes i out rem = Fine (out @ [0xFF, 0xDA] @ rest, rem)"
    | (segment) marker seg j where "i + 2 \<le> j" "get_range bytes j (j + length seg) = Some seg"
        "jpeg_segment seg" "\<not> is_standalone marker" "marker \<noteq> 0xFF" "marker \<noteq> 0xDA"
        "jpeg_loop bytes i out rem =
          (if is_metadata marker (drop 2 seg)
           then jpeg_loop bytes (j + length seg) out
             (rem @ [\<lparr>rv_what = jpeg_describe marker (drop 2 seg), rv_bytes = length seg + 2\<rparr>])
           else jpeg_loop bytes (j + length seg) (out @ [0xFF, marker] @ seg) rem)"
proof -
  define m where "m = skip_fill bytes i"
  have ge: "i \<le> m" unfolding m_def by (rule skip_fill_ge)
  note step = jpeg_loop.simps [of bytes i out rem, folded m_def]
  show ?thesis
  proof (cases "m = i \<or> get_at bytes m = None")
    case True
    then have "\<exists>e. jpeg_loop bytes i out rem = Failed e" by (auto simp: step Let_def)
    with bad show ?thesis by blast
  next
    case False
    then obtain marker where mk: "get_at bytes m = Some marker" and ne: "m \<noteq> i" by auto
    then have ff: "marker \<noteq> 0xFF" and m: "m < length bytes" "i + 2 \<le> m + 1"
      using skip_fill_end [of bytes i] ge by (auto simp: m_def get_at_Some)
    show ?thesis
    proof (cases "is_standalone marker")
      case True
      show ?thesis
      proof (rule alone [of "m + 1" marker])
        show "jpeg_loop bytes i out rem = jpeg_loop bytes (m + 1) (out @ [0xFF, marker]) rem"
          using True mk ne by (simp add: step)
      qed (use m True ff in auto)
    next
      case st: False
      show ?thesis
      proof (cases "get_range bytes (m + 1) (m + 1 + 2)")
        case None
        with bad mk ne st show ?thesis by (simp add: step)
      next
        case b: (Some b)
        show ?thesis
        proof (cases "be16 b < 2 \<or> get_range bytes (m + 1 + 2) (m + 1 + be16 b) = None")
          case True
          with mk ne st b have "\<exists>e. jpeg_loop bytes i out rem = Failed e"
            by (auto simp: step simp del: One_nat_def)
          with bad show ?thesis by blast
        next
          case False
          then obtain payload where p: "get_range bytes (m + 1 + 2) (m + 1 + be16 b) = Some payload"
            and l: "2 \<le> be16 b" "\<not> be16 b < 2" by auto
          then have fits: "m + 1 + be16 b \<le> length bytes" by (simp add: get_range_Some)
          define seg where "seg = take (be16 b) (drop (m + 1) bytes)"
          have seg: "get_range bytes (m + 1) (m + 1 + be16 b) = Some seg" and len: "length seg = be16 b"
            using fits by (auto simp: seg_def get_range_def)
          have "get_range seg 0 2 = Some b" "get_range seg 2 (be16 b) = Some payload"
            using get_range_sub [OF seg, of 0 2] get_range_sub [OF seg, of 2 "be16 b"] b p l(1)
            by (simp_all only: add_0_right order_refl simp_thms le0)
          then have hd: "take 2 seg = b" "drop 2 seg = payload"
            using len by (auto simp: get_range_Some)
          note eval = step Let_def ne mk st b l(2) p option.case if_False
          show ?thesis
          proof (cases "marker = 0xDA")
            case True
            define rest where "rest = drop (m + 1) bytes"
            have r: "get_range bytes (m + 1) (length bytes) = Some rest"
              using fits by (simp add: get_range_def rest_def)
            show ?thesis
            proof (rule scan [of "m + 1" rest])
              have b2: "take 2 rest = b" using b by (auto simp: get_range_Some rest_def)
              show "2 \<le> be16 (take 2 rest)" "be16 (take 2 rest) \<le> length rest"
                using l fits b2 by (simp_all add: rest_def)
              show "jpeg_loop bytes i out rem = Fine (out @ [0xFF, 0xDA] @ rest, rem)"
                using st True by (simp only: eval r if_True refl)
            qed (use m fits in \<open>simp_all add: rest_def\<close>)
          next
            case False
            show ?thesis
            proof (rule segment [of "m + 1" seg marker])
              show "jpeg_loop bytes i out rem = (if is_metadata marker (drop 2 seg)
                then jpeg_loop bytes (m + 1 + length seg) out
                  (rem @ [\<lparr>rv_what = jpeg_describe marker (drop 2 seg), rv_bytes = length seg + 2\<rparr>])
                else jpeg_loop bytes (m + 1 + length seg) (out @ [0xFF, marker] @ seg) rem)"
                by (simp only: eval False seg hd len)
              show "jpeg_segment seg" using len l hd by (simp add: jpeg_segment_def)
            qed (use m False st ff seg len in simp_all)
          qed
        qed
      qed
    qed
  qed
qed

text \<open>The loop behind a marker without fill bytes.\<close>

lemma jpeg_marker:
  assumes "marker \<noteq> 0xFF"
  shows "skip_fill (pre @ 0xFF # marker # rest) (length pre) = length pre + 1"
    and "get_at (pre @ 0xFF # marker # rest) (length pre + 1) = Some marker"
proof -
  show a: "get_at (pre @ 0xFF # marker # rest) (length pre + 1) = Some marker"
    by (simp add: get_at_def nth_append)
  with assms have "skip_fill (pre @ 0xFF # marker # rest) (length pre + 1) = length pre + 1"
    by (subst skip_fill.simps) simp
  then show "skip_fill (pre @ 0xFF # marker # rest) (length pre) = length pre + 1"
    by (subst skip_fill.simps) simp
qed

lemma jpeg_alone_again:
  assumes "is_standalone marker" and "marker \<noteq> 0xFF"
  shows "jpeg_loop (pre @ [0xFF, marker] @ rest) (length pre) out rem
    = jpeg_loop (pre @ [0xFF, marker] @ rest) (length pre + 2) (out @ [0xFF, marker]) rem"
  using assms jpeg_marker [OF assms(2), of pre rest]
  by (subst jpeg_loop.simps) (simp add: Let_def)

lemma jpeg_segment_again:
  assumes "\<not> is_standalone marker" and "marker \<noteq> 0xFF" and "marker \<noteq> 0xDA"
    and seg: "jpeg_segment seg" and "\<not> is_metadata marker (drop 2 seg)"
  shows "jpeg_loop (pre @ [0xFF, marker] @ seg @ rest) (length pre) out rem
    = jpeg_loop (pre @ [0xFF, marker] @ seg @ rest) (length (pre @ [0xFF, marker] @ seg))
        (out @ [0xFF, marker] @ seg) rem"
proof -
  let ?bytes = "pre @ [0xFF, marker] @ seg @ rest" and ?i = "length pre + 1"
  have l: "2 \<le> length seg" "be16 (take 2 seg) = length seg" using seg by (auto simp: jpeg_segment_def)
  have mk: "skip_fill ?bytes (length pre) = ?i" "get_at ?bytes ?i = Some marker"
    using jpeg_marker [OF assms(2), of pre "seg @ rest"] by simp_all
  have g: "get_range ?bytes (?i + 1) (?i + 1 + 2) = Some (take 2 seg)"
    "get_range ?bytes (?i + 1 + 2) (?i + 1 + length seg) = Some (drop 2 seg)"
    "get_range ?bytes (?i + 1) (?i + 1 + length seg) = Some seg"
    using l by (simp_all add: get_range_def)
  have ne: "(?i = length pre) = False" "\<not> length seg < 2"
    and e: "length (pre @ [0xFF, marker] @ seg) = ?i + 1 + length seg" using l by simp_all
  show ?thesis
    unfolding e
    by (subst jpeg_loop.simps) (simp only: Let_def mk ne assms l(2) g option.case if_False)
qed

lemma jpeg_scan_again:
  assumes "2 \<le> be16 (take 2 rest)" and "be16 (take 2 rest) \<le> length rest"
  shows "jpeg_loop (pre @ [0xFF, 0xDA] @ rest) (length pre) out rem = Fine (out @ [0xFF, 0xDA] @ rest, rem)"
proof -
  let ?bytes = "pre @ [0xFF, 0xDA] @ rest" and ?i = "length pre + 1"
  have mk: "skip_fill ?bytes (length pre) = ?i" "get_at ?bytes ?i = Some 0xDA"
    using jpeg_marker [of "0xDA" pre rest] by simp_all
  have g: "get_range ?bytes (?i + 1) (?i + 1 + 2) = Some (take 2 rest)"
    "get_range ?bytes (?i + 1 + 2) (?i + 1 + be16 (take 2 rest))
       = Some (take (be16 (take 2 rest) - 2) (drop 2 rest))"
    "get_range ?bytes (?i + 1) (length ?bytes) = Some rest"
    using assms by (simp_all add: get_range_def)
  have ne: "(?i = length pre) = False" "\<not> be16 (take 2 rest) < 2" "\<not> is_standalone 0xDA"
    using assms by (simp_all add: is_standalone_def)
  show ?thesis
    by (subst jpeg_loop.simps) (simp only: Let_def mk ne g option.case if_False if_True refl)
qed

definition jpeg_kept :: "byte list \<Rightarrow> bool" where
  "jpeg_kept k \<longleftrightarrow> prefix [0xFF] k
     \<and> (\<forall>pre out rem. jpeg_loop (pre @ k) (length pre) out rem = Fine (out @ k, rem))"

lemma jpeg_kept_marker:
  assumes "\<And>pre out rem. jpeg_loop (pre @ ([0xFF, marker] @ seg) @ k) (length pre) out rem
      = jpeg_loop ((pre @ [0xFF, marker] @ seg) @ k) (length (pre @ [0xFF, marker] @ seg))
          (out @ [0xFF, marker] @ seg) rem"
    and k: "jpeg_kept k"
  shows "jpeg_kept (([0xFF, marker] @ seg) @ k)"
proof -
  have "jpeg_loop ((pre @ [0xFF, marker] @ seg) @ k) (length (pre @ [0xFF, marker] @ seg))
      (out @ [0xFF, marker] @ seg) rem = Fine ((out @ [0xFF, marker] @ seg) @ k, rem)" for pre out rem
    using k unfolding jpeg_kept_def by metis
  with assms(1) have "jpeg_loop (pre @ ([0xFF, marker] @ seg) @ k) (length pre) out rem
      = Fine (out @ ([0xFF, marker] @ seg) @ k, rem)" for pre out rem
    by simp
  then show ?thesis unfolding jpeg_kept_def by simp
qed

lemma jpeg_loop_adds:
  "adds (jpeg_loop bytes i out rem) out rem (\<lambda>m. m \<le> length bytes - i) jpeg_kept"
proof (induction "length bytes - i" arbitrary: i out rem rule: less_induct)
  case less
  show ?case
  proof (cases rule: jpeg_loop_cases [of bytes i out rem])
    case bad
    then show ?thesis by simp
  next
    case (alone marker j)
    have "adds (jpeg_loop bytes j (out @ [0xFF, marker]) (rem @ [])) (out @ [0xFF, marker]) (rem @ [])
      (\<lambda>m. m \<le> length bytes - j) jpeg_kept"
      by (rule less.hyps) (use alone in linarith)
    moreover have "jpeg_kept k \<Longrightarrow> jpeg_kept ([0xFF, marker] @ k)" for k
      using jpeg_kept_marker [of marker "[]" k] jpeg_alone_again [OF alone(3, 4), of _ k] by simp
    ultimately show ?thesis
      using adds_step [of _ out "[0xFF, marker]" rem "[]"] alone by simp
  next
    case (scan rest j)
    have "jpeg_kept ([0xFF, 0xDA] @ rest)"
      unfolding jpeg_kept_def using jpeg_scan_again [OF scan(3, 4)] by simp
    with scan adds_fine [of "\<lambda>m. m \<le> length bytes - i" "[0xFF, 0xDA] @ rest" "[]" jpeg_kept out rem]
    show ?thesis by simp
  next
    case (segment marker seg j)
    have j: "j + length seg \<le> length bytes" "2 \<le> length seg"
      using segment(2, 3) by (auto simp: get_range_Some jpeg_segment_def)
    show ?thesis
    proof (cases "is_metadata marker (drop 2 seg)")
      case True
      let ?n = "[\<lparr>rv_what = jpeg_describe marker (drop 2 seg), rv_bytes = length seg + 2\<rparr>]"
      have "adds (jpeg_loop bytes (j + length seg) (out @ []) (rem @ ?n)) (out @ []) (rem @ ?n)
        (\<lambda>m. m \<le> length bytes - (j + length seg)) jpeg_kept"
        by (rule less.hyps) (use segment(1) j in linarith)
      then have "adds (jpeg_loop bytes (j + length seg) (out @ []) (rem @ ?n)) out rem
        (\<lambda>m. m \<le> length bytes - i) jpeg_kept"
        by (rule adds_step) (use segment(1) j in auto)
      with segment(7) True show ?thesis by simp
    next
      case False
      let ?k = "[0xFF, marker] @ seg"
      have a: "adds (jpeg_loop bytes (j + length seg) (out @ ?k) (rem @ [])) (out @ ?k) (rem @ [])
        (\<lambda>m. m \<le> length bytes - (j + length seg)) jpeg_kept"
        by (rule less.hyps) (use segment(1) j in linarith)
      have kept: "jpeg_kept k \<Longrightarrow> jpeg_kept (?k @ k)" for k
        by (rule jpeg_kept_marker)
          (use jpeg_segment_again [OF segment(4-6, 3) False, of _ k] in simp_all)
      have "adds (jpeg_loop bytes (j + length seg) (out @ ?k) (rem @ [])) out rem
        (\<lambda>m. m \<le> length bytes - i) jpeg_kept"
        by (rule adds_step [where S' = jpeg_kept, OF a]) (use segment(1) j kept in auto)
      with segment(7) False show ?thesis by simp
    qed
  qed
qed

section \<open>The contract\<close>

abbreviation is_jpeg :: "byte list \<Rightarrow> bool" where
  "is_jpeg bs \<equiv> prefix [0xFF, 0xD8, 0xFF] bs"

lemma jpeg_strip_eq: "jpeg_strip ([0xFF, 0xD8] @ k) = wrap Jpeg (jpeg_loop ([0xFF, 0xD8] @ k) 2 [0xFF, 0xD8] [])"
  by (simp add: jpeg_strip_def get_range_def numeral_2_eq_2)

interpretation jpeg: stripper is_jpeg jpeg_strip 0
proof
  fix bs s
  assume "is_jpeg bs"
  then obtain rest where bs: "bs = [0xFF, 0xD8] @ rest" by (auto simp: prefix_def)
  note loop = adds_cases [OF jpeg_loop_adds [of bs 2 "[0xFF, 0xD8]" "[]"]]
  show "jpeg_strip bs \<noteq> Panic"
    by (rule loop) (simp_all add: bs jpeg_strip_eq del: append_Cons append_Nil)
  assume s: "jpeg_strip bs = Fine s"
  obtain k new where k: "jpeg_loop bs 2 [0xFF, 0xD8] [] = Fine ([0xFF, 0xD8] @ k, new)"
    "length k + removed_sum new \<le> length bs - 2" "jpeg_kept k"
    by (rule loop) (use s in \<open>auto simp: bs jpeg_strip_eq simp del: append_Cons append_Nil\<close>)
  have s': "s = \<lparr>st_kind = Jpeg, st_bytes = [0xFF, 0xD8] @ k, st_removed = new\<rparr>"
    using s k(1) unfolding bs jpeg_strip_eq by simp
  then show "length (st_bytes s) + removed_bytes s \<le> length bs"
    using k(2) by (simp add: removed_bytes_def bs)
  have "jpeg_loop ([0xFF, 0xD8] @ k) (length [0xFF, 0xD8 :: byte]) [0xFF, 0xD8] [] = Fine ([0xFF, 0xD8] @ k, [])"
    using k(3) unfolding jpeg_kept_def by blast
  then have "jpeg_strip ([0xFF, 0xD8] @ k) = Fine \<lparr>st_kind = Jpeg, st_bytes = [0xFF, 0xD8] @ k, st_removed = []\<rparr>"
    unfolding jpeg_strip_eq by (simp add: numeral_2_eq_2)
  with s' k(3) show "is_jpeg (st_bytes s) \<and> jpeg_strip (st_bytes s) = Fine (s\<lparr>st_removed := []\<rparr>)"
    by (auto simp: jpeg_kept_def prefix_def)
qed

end
