(* ===== verification/Media_Gif.thy ===== *)
theory Media_Gif
  imports Media_Kind
begin

text \<open>
  GIF (\<^verbatim>\<open>core/ddirc-core/src/media/gif.rs\<close>): the blocks behind the screen descriptor, whose
  payloads are chains of sub-blocks.
\<close>

unbundle bit_operations_syntax

definition GIF_HEADER :: nat where
  "GIF_HEADER = 13"

definition EXTENSION :: byte where
  "EXTENSION = 0x21"

definition IMAGE :: byte where
  "IMAGE = 0x2C"

definition TRAILER :: byte where
  "TRAILER = 0x3B"

definition COMMENT :: byte where
  "COMMENT = 0xFE"

definition APPLICATION :: byte where
  "APPLICATION = 0xFF"

function end_of_sub_blocks :: "byte list \<Rightarrow> nat \<Rightarrow> nat outcome" where
  "end_of_sub_blocks bytes i =
     (case get_at bytes i of
        None \<Rightarrow> Failed (malformed Gif (U ''unterminated block''))
      | Some len \<Rightarrow>
        if len = 0 then Fine (i + 1)
        else if i + 1 + unat len > length bytes
        then Failed (malformed Gif (U ''block runs past the end''))
        else end_of_sub_blocks bytes (i + 1 + unat len))"
  by pat_completeness auto
termination
  by (relation "measure (\<lambda>(bytes, i). length bytes - i)") (auto simp: get_at_Some)

declare end_of_sub_blocks.simps [simp del]

text \<open>The size of the colour table a packed field announces.\<close>

definition color_table :: "byte \<Rightarrow> nat" where
  "color_table packed =
     (if packed AND 0x80 \<noteq> 0 then 3 * 2 ^ (unat (packed AND 0x07) + 1) else 0)"

definition is_xmp :: "byte list \<Rightarrow> nat \<Rightarrow> byte \<Rightarrow> bool" where
  "is_xmp bytes body label \<longleftrightarrow>
     label = APPLICATION \<and> get_range bytes (body + 1) (body + 12) = Some (B ''XMP DataXMP'')"

lemma end_of_sub_blocks_bounds:
  "end_of_sub_blocks bytes i = Fine e \<Longrightarrow> i < e \<and> e \<le> length bytes"
proof (induction bytes i rule: end_of_sub_blocks.induct)
  case (1 bytes i)
  from "1.prems" show ?case
    by (subst (asm) end_of_sub_blocks.simps)
      (use "1.IH" in \<open>auto simp: get_at_Some split: option.splits if_splits\<close>)
qed

function gif_loop ::
  "byte list \<Rightarrow> nat \<Rightarrow> byte list \<Rightarrow> removed list \<Rightarrow> (byte list \<times> removed list) outcome" where
  "gif_loop bytes i out removed =
     (case get_at bytes i of
        None \<Rightarrow> Failed (malformed Gif (U ''ended without a trailer''))
      | Some block \<Rightarrow>
        if block = TRAILER then
          Fine (out @ [TRAILER],
                if i + 1 < length bytes
                then removed @ [\<lparr>rv_what = U ''data after the end of the image'',
                                 rv_bytes = length bytes - (i + 1)\<rparr>]
                else removed)
        else if block = EXTENSION then
          case get_at bytes (i + 1) of
            None \<Rightarrow> Failed (malformed Gif (U ''truncated extension''))
          | Some label \<Rightarrow>
            case end_of_sub_blocks bytes (i + 2) of
              Fine e \<Rightarrow>
                if label = COMMENT \<or> is_xmp bytes (i + 2) label then
                  gif_loop bytes e out
                    (removed @ [\<lparr>rv_what = (if label = COMMENT then U ''comment'' else U ''XMP''),
                                 rv_bytes = e - i\<rparr>])
                else
                  (case get_range bytes i e of
                     None \<Rightarrow> Panic
                   | Some piece \<Rightarrow> gif_loop bytes e (out @ piece) removed)
            | Failed err \<Rightarrow> Failed err
            | Panic \<Rightarrow> Panic
        else if block = IMAGE then
          case get_at bytes (i + 9) of
            None \<Rightarrow> Failed (malformed Gif (U ''truncated image descriptor''))
          | Some packed \<Rightarrow>
            let data = i + 10 + color_table packed
            in if length bytes \<le> data then Failed (malformed Gif (U ''truncated image data''))
               else case end_of_sub_blocks bytes (data + 1) of
                 Fine e \<Rightarrow>
                   (case get_range bytes i e of
                      None \<Rightarrow> Panic
                    | Some piece \<Rightarrow> gif_loop bytes e (out @ piece) removed)
               | Failed err \<Rightarrow> Failed err
               | Panic \<Rightarrow> Panic
        else Failed (malformed Gif (U ''unknown block'')))"
  by pat_completeness auto
termination
  by (relation "measure (\<lambda>(bytes, i, _, _). length bytes - i)")
    (auto simp: get_at_Some dest!: end_of_sub_blocks_bounds)

declare gif_loop.simps [simp del]

definition gif_strip :: "byte list \<Rightarrow> stripped outcome" where
  "gif_strip bytes =
     (if length bytes \<le> GIF_HEADER then Failed (malformed Gif (U ''truncated header''))
      else
        let i = GIF_HEADER + color_table (bytes ! 10)
        in if i > length bytes then Failed (malformed Gif (U ''colour table runs past the end''))
           else case get_range bytes 0 i of
               None \<Rightarrow> Panic
             | Some head \<Rightarrow> wrap Gif (gif_loop bytes i head []))"

section \<open>Chains of sub-blocks\<close>

inductive sub_chain :: "byte list \<Rightarrow> bool" where
  chain_end: "sub_chain [0]"
| chain_block: "len \<noteq> 0 \<Longrightarrow> length d = unat len \<Longrightarrow> sub_chain c \<Longrightarrow> sub_chain (len # d @ c)"

lemma sub_chain_last: "sub_chain c \<Longrightarrow> c \<noteq> [] \<and> last c = 0"
  by (induction rule: sub_chain.induct) auto

lemma end_of_sub_blocks_chain:
  "end_of_sub_blocks bytes i = Fine e \<Longrightarrow> \<exists>c. get_range bytes i e = Some c \<and> sub_chain c"
proof (induction bytes i rule: end_of_sub_blocks.induct)
  case (1 bytes i)
  then obtain len where len: "get_at bytes i = Some len"
    by (subst (asm) end_of_sub_blocks.simps) (auto split: option.splits)
  show ?case
  proof (cases "len = 0")
    case True
    with 1(2) len have "e = i + 1" by (simp add: end_of_sub_blocks.simps [of bytes i])
    with len True show ?thesis
      by (auto simp: get_range_def get_at_Some take_Suc Cons_nth_drop_Suc [symmetric] intro: chain_end)
  next
    case False
    let ?j = "i + 1 + unat len"
    from 1(2) len False have j: "?j \<le> length bytes" and e: "end_of_sub_blocks bytes ?j = Fine e"
      by (auto simp: end_of_sub_blocks.simps [of bytes i] split: if_splits)
    with 1(1) [OF len False] obtain c where c: "get_range bytes ?j e = Some c" "sub_chain c" by auto
    let ?d = "take (unat len) (drop (i + 1) bytes)"
    have "get_range bytes i e = Some (len # ?d @ c)"
    proof -
      have ie: "?j \<le> e" "e \<le> length bytes" and ce: "c = take (e - ?j) (drop ?j bytes)"
        using c(1) by (auto simp: get_range_Some)
      have "drop i bytes = len # drop (i + 1) bytes"
        using len by (auto simp: get_at_Some Cons_nth_drop_Suc)
      then have "take (e - i) (drop i bytes) = len # take (e - i - 1) (drop (i + 1) bytes)"
        using ie by (cases "e - i") auto
      also have "take (e - i - 1) (drop (i + 1) bytes) = ?d @ c"
      proof -
        have "e - i - 1 = unat len + (e - ?j)" using ie by simp
        then show ?thesis unfolding ce by (simp only: take_add drop_drop add.commute)
      qed
      finally show ?thesis using ie by (simp add: get_range_def)
    qed
    moreover have "length ?d = unat len" using j by simp
    ultimately show ?thesis using chain_block [OF False _ c(2)] by blast
  qed
qed

lemma sub_chain_again:
  "sub_chain c \<Longrightarrow> end_of_sub_blocks (pre @ c @ rest) (length pre) = Fine (length pre + length c)"
proof (induction arbitrary: pre rule: sub_chain.induct)
  case chain_end
  show ?case by (simp add: end_of_sub_blocks.simps)
next
  case (chain_block len d c)
  have "end_of_sub_blocks ((pre @ len # d) @ c @ rest) (length (pre @ len # d))
      = Fine (length (pre @ len # d) + length c)"
    by (rule chain_block.IH)
  with chain_block show ?case
    by (subst end_of_sub_blocks.simps) simp
qed

lemma end_of_sub_blocks_no_panic: "end_of_sub_blocks bytes i \<noteq> Panic"
proof (induction bytes i rule: end_of_sub_blocks.induct)
  case (1 bytes i)
  then show ?case by (subst end_of_sub_blocks.simps) (auto split: option.splits)
qed

section \<open>Blocks\<close>

text \<open>An image block behind its first byte: nine bytes of descriptor, the colour table, the code size.\<close>

definition gif_image :: "byte list \<Rightarrow> bool" where
  "gif_image d \<longleftrightarrow> length d = 10 + color_table (d ! 8)"

lemma gif_bytes_differ [simp]:
  "EXTENSION \<noteq> TRAILER" "IMAGE \<noteq> TRAILER" "IMAGE \<noteq> EXTENSION" "EXTENSION \<noteq> IMAGE"
  by (simp_all add: EXTENSION_def TRAILER_def IMAGE_def)

lemma gif_loop_cases:
  obtains (bad) e where "gif_loop bytes i out rem = Failed e"
    | (trailer) "i < length bytes" "gif_loop bytes i out rem = Fine (out @ [TRAILER],
        if i + 1 < length bytes
        then rem @ [\<lparr>rv_what = U ''data after the end of the image'', rv_bytes = length bytes - (i + 1)\<rparr>]
        else rem)"
    | (ext) label c where "get_range bytes i (i + (2 + length c)) = Some (EXTENSION # label # c)" "sub_chain c"
        "gif_loop bytes i out rem =
          (if label = COMMENT \<or> is_xmp bytes (i + 2) label
           then gif_loop bytes (i + (2 + length c)) out
             (rem @ [\<lparr>rv_what = (if label = COMMENT then U ''comment'' else U ''XMP''),
                      rv_bytes = 2 + length c\<rparr>])
           else gif_loop bytes (i + (2 + length c)) (out @ EXTENSION # label # c) rem)"
    | (image) d c where "get_range bytes i (i + (1 + length d + length c)) = Some (IMAGE # d @ c)"
        "gif_image d" "sub_chain c"
        "gif_loop bytes i out rem = gif_loop bytes (i + (1 + length d + length c)) (out @ IMAGE # d @ c) rem"
proof -
  note step = gif_loop.simps [of bytes i out rem]
  consider (none) "get_at bytes i = None" | (tr) "get_at bytes i = Some TRAILER"
    | (ex) "get_at bytes i = Some EXTENSION" | (im) "get_at bytes i = Some IMAGE"
    | (other) x where "get_at bytes i = Some x" "x \<noteq> TRAILER" "x \<noteq> EXTENSION" "x \<noteq> IMAGE"
    by (cases "get_at bytes i") auto
  then show ?thesis
  proof cases
    case none
    with bad show ?thesis by (simp add: step)
  next
    case tr
    then have "i < length bytes" by (simp add: get_at_Some)
    then show ?thesis by (rule trailer) (simp only: step tr option.case if_True refl)
  next
    case other
    with bad show ?thesis by (simp add: step)
  next
    case ex
    show ?thesis
    proof (cases "get_at bytes (i + 1)")
      case None
      with ex bad show ?thesis by (simp add: step)
    next
      case label: (Some label)
      show ?thesis
      proof (cases "end_of_sub_blocks bytes (i + 2)")
        case (Failed e)
        with ex label bad show ?thesis by (simp add: step)
      next
        case Panic
        then show ?thesis using end_of_sub_blocks_no_panic by blast
      next
        case e: (Fine e)
        then obtain c where c: "get_range bytes (i + 2) e = Some c" "sub_chain c"
          using end_of_sub_blocks_chain by blast
        then have ie: "i + 2 \<le> e" "e \<le> length bytes" and ce: "c = take (e - (i + 2)) (drop (i + 2) bytes)"
          by (auto simp: get_range_Some)
        then have e': "e = i + (2 + length c)" by simp
        have "drop i bytes = EXTENSION # label # drop (i + 2) bytes"
          using drop_get_at [OF ex] drop_get_at [OF label] by simp
        moreover have "e - i = Suc (Suc (e - (i + 2)))" using ie by simp
        ultimately have "take (e - i) (drop i bytes) = EXTENSION # label # c" using ce by simp
        then have piece: "get_range bytes i e = Some (EXTENSION # label # c)"
          using ie by (simp add: get_range_def)
        have sz: "e - i = 2 + length c" using e' by simp
        show ?thesis
        proof (rule ext [of c label])
          show "gif_loop bytes i out rem = (if label = COMMENT \<or> is_xmp bytes (i + 2) label
            then gif_loop bytes (i + (2 + length c)) out
              (rem @ [\<lparr>rv_what = (if label = COMMENT then U ''comment'' else U ''XMP''),
                       rv_bytes = 2 + length c\<rparr>])
            else gif_loop bytes (i + (2 + length c)) (out @ EXTENSION # label # c) rem)"
            by (simp only: step ex label e piece sz e' [symmetric] option.case outcome.case gif_bytes_differ
                if_True if_False refl)
        qed (use piece c(2) e' in simp_all)
      qed
    qed
  next
    case im
    show ?thesis
    proof (cases "get_at bytes (i + 9)")
      case None
      with im bad show ?thesis by (simp add: step)
    next
      case packed: (Some packed)
      let ?data = "i + 10 + color_table packed"
      show ?thesis
      proof (cases "length bytes \<le> ?data")
        case True
        with im packed bad show ?thesis by (simp add: step)
      next
        case data: False
        show ?thesis
        proof (cases "end_of_sub_blocks bytes (?data + 1)")
          case (Failed e)
          with im packed data bad show ?thesis by (simp add: step)
        next
          case Panic
          then show ?thesis using end_of_sub_blocks_no_panic by blast
        next
          case e: (Fine e)
          then obtain c where c: "get_range bytes (?data + 1) e = Some c" "sub_chain c"
            using end_of_sub_blocks_chain by blast
          then have ie: "?data + 1 \<le> e" "e \<le> length bytes"
            and ce: "c = take (e - (?data + 1)) (drop (?data + 1) bytes)"
            by (auto simp: get_range_Some)
          define d where "d = take (10 + color_table packed) (drop (i + 1) bytes)"
          have ld: "length d = 10 + color_table packed" using ie by (simp add: d_def)
          have "d ! 8 = packed" using packed by (simp add: d_def get_at_Some add.commute)
          with ld have gd: "gif_image d" by (simp add: gif_image_def)
          have e': "e = i + (1 + length d + length c)" using ie ce ld by simp
          have "drop i bytes = IMAGE # drop (i + 1) bytes"
            by (rule drop_get_at [OF im])
          moreover have "drop (i + 1) bytes = d @ drop (?data + 1) bytes"
          proof -
            have "drop (?data + 1) bytes = drop (10 + color_table packed) (drop (i + 1) bytes)"
              by (simp add: add_ac)
            then show ?thesis by (simp only: d_def append_take_drop_id)
          qed
          ultimately have "drop i bytes = (IMAGE # d) @ drop (?data + 1) bytes" by simp
          moreover have "e - i = length (IMAGE # d) + (e - (?data + 1))" using ie ld by simp
          ultimately have "take (e - i) (drop i bytes) = (IMAGE # d) @ c"
            using ce by simp
          then have piece: "get_range bytes i e = Some (IMAGE # d @ c)"
            using ie by (simp add: get_range_def)
          have "gif_loop bytes i out rem = gif_loop bytes e (out @ IMAGE # d @ c) rem"
            using im packed data e piece by (simp add: step)
          then show ?thesis using piece gd c(2) unfolding e' by (intro image [of d c])
        qed
      qed
    qed
  qed
qed

text \<open>
  Whether an extension is XMP is read from the bytes behind its first length byte. The identifier
  holds no zero and starts with no block byte, so what follows the extension cannot turn one that is
  not XMP into one that is.
\<close>

lemma xmp_local:
  assumes "get_range (c @ r) 1 12 \<noteq> Some (B ''XMP DataXMP'')" and c: "c \<noteq> []" "last c = 0"
    and k: "k \<noteq> []" "hd k \<noteq> 0x58"
  shows "get_range (c @ k) 1 12 \<noteq> Some (B ''XMP DataXMP'')"
proof
  assume xmp: "get_range (c @ k) 1 12 = Some (B ''XMP DataXMP'')"
  then have at: "(c @ k) ! (1 + n) = B ''XMP DataXMP'' ! n" if "n < 11" for n
    using get_range_nth [OF xmp, of n] that by simp
  have "0 \<notin> set (B ''XMP DataXMP'')" "length (B ''XMP DataXMP'') = 11" by simp_all
  then have nz: "B ''XMP DataXMP'' ! n \<noteq> 0" if "n < 11" for n using that by (metis nth_mem)
  consider "12 \<le> length c" | "length c = 1" | "2 \<le> length c" "length c < 12"
    using c(1) length_greater_0_conv [of c] by linarith
  then show False
  proof cases
    case 1
    with xmp have "get_range (c @ r) 1 12 = Some (B ''XMP DataXMP'')"
      by (simp add: get_range_block)
    with assms(1) show False ..
  next
    case 2
    then have "(c @ k) ! (1 + 0) = hd k" using k(1) by (simp add: nth_append hd_conv_nth)
    with at [of 0] k(2) show False by simp
  next
    case 3
    then have "(c @ k) ! (1 + (length c - 2)) = last c"
      using c(1) by (simp add: nth_append last_conv_nth Suc_diff_Suc numeral_2_eq_2)
    with at [of "length c - 2"] nz [of "length c - 2"] 3 c(2) show False by simp
  qed
qed

lemma gif_ext_again:
  assumes c: "sub_chain c" and "label \<noteq> COMMENT"
    and "label = APPLICATION \<Longrightarrow> get_range (c @ rest) 1 12 \<noteq> Some (B ''XMP DataXMP'')"
  shows "gif_loop (pre @ (EXTENSION # label # c) @ rest) (length pre) out rem
    = gif_loop (pre @ (EXTENSION # label # c) @ rest) (length (pre @ EXTENSION # label # c))
        (out @ EXTENSION # label # c) rem"
proof -
  let ?bytes = "pre @ (EXTENSION # label # c) @ rest"
  have a: "get_at ?bytes (length pre) = Some EXTENSION" "get_at ?bytes (length pre + 1) = Some label"
    by (simp_all add: get_at_def nth_append)
  have len: "length (pre @ EXTENSION # label # c) = length pre + 2 + length c" by simp
  have e: "end_of_sub_blocks ?bytes (length pre + 2) = Fine (length (pre @ EXTENSION # label # c))"
    using sub_chain_again [OF c, of "pre @ [EXTENSION, label]" rest] by (simp add: numeral_2_eq_2)
  have "get_range ?bytes (length pre + 2 + 1) (length pre + 2 + 12) = get_range (c @ rest) 1 12"
    using get_range_skip [of "pre @ [EXTENSION, label]" "c @ rest" 1 12] by (simp add: numeral_2_eq_2)
  then have x: "\<not> is_xmp ?bytes (length pre + 2) label" using assms(3) by (auto simp: is_xmp_def)
  have p: "get_range ?bytes (length pre) (length (pre @ EXTENSION # label # c)) = Some (EXTENSION # label # c)"
    by (simp add: get_range_def)
  show ?thesis
    by (subst gif_loop.simps)
      (simp only: a e x p assms(2) option.case outcome.case gif_bytes_differ if_True if_False simp_thms)
qed

lemma gif_image_again:
  assumes c: "sub_chain c" and d: "gif_image d"
  shows "gif_loop (pre @ (IMAGE # d @ c) @ rest) (length pre) out rem
    = gif_loop (pre @ (IMAGE # d @ c) @ rest) (length (pre @ IMAGE # d @ c)) (out @ IMAGE # d @ c) rem"
proof -
  let ?bytes = "pre @ (IMAGE # d @ c) @ rest" and ?ct = "color_table (d ! 8)"
  have ld: "length d = 10 + ?ct" using d by (simp add: gif_image_def)
  have a: "get_at ?bytes (length pre) = Some IMAGE" "get_at ?bytes (length pre + 9) = Some (d ! 8)"
    using ld by (simp_all add: get_at_def nth_append)
  have dt: "\<not> length ?bytes \<le> length pre + 10 + ?ct" using ld by simp
  have pl: "length (pre @ IMAGE # d) = length pre + 10 + ?ct + 1" using ld by simp
  have "end_of_sub_blocks ((pre @ IMAGE # d) @ c @ rest) (length (pre @ IMAGE # d))
      = Fine (length (pre @ IMAGE # d) + length c)"
    by (rule sub_chain_again [OF c])
  then have e: "end_of_sub_blocks ?bytes (length pre + 10 + ?ct + 1) = Fine (length (pre @ IMAGE # d @ c))"
    unfolding pl [symmetric] by simp
  have p: "get_range ?bytes (length pre) (length (pre @ IMAGE # d @ c)) = Some (IMAGE # d @ c)"
    by (simp add: get_range_def)
  show ?thesis
    by (subst gif_loop.simps)
      (simp only: a dt e p option.case outcome.case gif_bytes_differ Let_def if_True if_False refl)
qed

definition gif_kept :: "byte list \<Rightarrow> bool" where
  "gif_kept k \<longleftrightarrow> k \<noteq> [] \<and> hd k \<noteq> 0x58
     \<and> (\<forall>pre out rem. gif_loop (pre @ k) (length pre) out rem = Fine (out @ k, rem))"

lemma gif_kept_trailer: "gif_kept [TRAILER]"
  by (simp add: gif_kept_def gif_loop.simps) (simp add: TRAILER_def)

lemma gif_kept_piece:
  assumes "\<And>pre out rem. gif_loop (pre @ piece @ k) (length pre) out rem
      = gif_loop (pre @ piece @ k) (length (pre @ piece)) (out @ piece) rem"
    and "piece \<noteq> []" and "hd piece \<noteq> 0x58" and k: "gif_kept k"
  shows "gif_kept (piece @ k)"
proof -
  have "gif_loop ((pre @ piece) @ k) (length (pre @ piece)) (out @ piece) rem
      = Fine ((out @ piece) @ k, rem)" for pre out rem
    using k unfolding gif_kept_def by metis
  with assms(1) have "gif_loop (pre @ piece @ k) (length pre) out rem = Fine (out @ piece @ k, rem)" for pre out rem
    by simp
  with assms(2, 3) show ?thesis unfolding gif_kept_def by simp
qed

lemma gif_loop_adds:
  "adds (gif_loop bytes i out rem) out rem (\<lambda>m. m = length bytes - i) gif_kept"
proof (induction "length bytes - i" arbitrary: i out rem rule: less_induct)
  case less
  let ?Q = "\<lambda>m. m = length bytes - i"
  show ?case
  proof (cases rule: gif_loop_cases [of bytes i out rem])
    case bad
    then show ?thesis by simp
  next
    case trailer
    let ?tail = "if i + 1 < length bytes
      then [\<lparr>rv_what = U ''data after the end of the image'', rv_bytes = length bytes - (i + 1)\<rparr>] else []"
    have "length [TRAILER] + removed_sum ?tail = length bytes - i"
      using trailer(1) by (cases "i + 1 < length bytes") auto
    then have "adds (Fine (out @ [TRAILER], rem @ ?tail)) out rem ?Q gif_kept"
      using gif_kept_trailer by (rule adds_fine)
    moreover have "gif_loop bytes i out rem = Fine (out @ [TRAILER], rem @ ?tail)"
      using trailer(2) by simp
    ultimately show ?thesis by simp
  next
    case (ext label c)
    let ?p = "EXTENSION # label # c" and ?j = "i + (2 + length c)"
    have j: "i < ?j" "?j \<le> length bytes" using ext(1) by (auto simp: get_range_Some)
    have c: "c \<noteq> []" "last c = 0" using sub_chain_last [OF ext(2)] by auto
    show ?thesis
    proof (cases "label = COMMENT \<or> is_xmp bytes (i + 2) label")
      case True
      let ?n = "[\<lparr>rv_what = (if label = COMMENT then U ''comment'' else U ''XMP''), rv_bytes = 2 + length c\<rparr>]"
      have "adds (gif_loop bytes ?j (out @ []) (rem @ ?n)) (out @ []) (rem @ ?n) (\<lambda>m. m = length bytes - ?j) gif_kept"
        by (rule less.hyps) (use j in linarith)
      then have "adds (gif_loop bytes ?j (out @ []) (rem @ ?n)) out rem ?Q gif_kept"
        by (rule adds_step) (use j in auto)
      with ext(3) True show ?thesis by simp
    next
      case False
      have a: "adds (gif_loop bytes ?j (out @ ?p) (rem @ [])) (out @ ?p) (rem @ []) (\<lambda>m. m = length bytes - ?j) gif_kept"
        by (rule less.hyps) (use j in linarith)
      have x: "get_range (c @ drop ?j bytes) 1 12 \<noteq> Some (B ''XMP DataXMP'')" if "label = APPLICATION"
      proof -
        have "bytes = take i bytes @ ?p @ drop ?j bytes"
          using ext(1) j by (metis append_take_drop_id drop_drop get_range_Some add.commute add_diff_cancel_left')
        then have "bytes = (take i bytes @ [EXTENSION, label]) @ c @ drop ?j bytes" by simp
        moreover have "length (take i bytes @ [EXTENSION, label]) = i + 2" using j by simp
        ultimately have "get_range bytes (i + 2 + 1) (i + 2 + 12) = get_range (c @ drop ?j bytes) 1 12"
          by (metis get_range_skip)
        with False that show ?thesis by (simp add: is_xmp_def)
      qed
      have kept: "gif_kept k \<Longrightarrow> gif_kept (?p @ k)" for k
      proof (rule gif_kept_piece)
        assume k: "gif_kept k"
        then have "k \<noteq> []" "hd k \<noteq> 0x58" by (simp_all add: gif_kept_def)
        with xmp_local [OF _ c this] x
        have "label = APPLICATION \<Longrightarrow> get_range (c @ k) 1 12 \<noteq> Some (B ''XMP DataXMP'')" by blast
        with gif_ext_again [OF ext(2), of label k] False
        show "gif_loop (pre @ ?p @ k) (length pre) out rem
          = gif_loop (pre @ ?p @ k) (length (pre @ ?p)) (out @ ?p) rem" for pre out rem by blast
      qed (simp_all add: EXTENSION_def)
      have "adds (gif_loop bytes ?j (out @ ?p) (rem @ [])) out rem ?Q gif_kept"
        by (rule adds_step [where S' = gif_kept, OF a]) (use j kept in auto)
      with ext(3) False show ?thesis by simp
    qed
  next
    case (image d c)
    let ?p = "IMAGE # d @ c" and ?j = "i + (1 + length d + length c)"
    have j: "i < ?j" "?j \<le> length bytes" using image(1) by (auto simp: get_range_Some)
    have a: "adds (gif_loop bytes ?j (out @ ?p) (rem @ [])) (out @ ?p) (rem @ []) (\<lambda>m. m = length bytes - ?j) gif_kept"
      by (rule less.hyps) (use j in linarith)
    have kept: "gif_kept k \<Longrightarrow> gif_kept (?p @ k)" for k
      by (rule gif_kept_piece) (use gif_image_again [OF image(3, 2), of _ k] in \<open>simp_all add: IMAGE_def\<close>)
    have "adds (gif_loop bytes ?j (out @ ?p) (rem @ [])) out rem ?Q gif_kept"
      by (rule adds_step [where S' = gif_kept, OF a]) (use j kept in auto)
    with image(4) show ?thesis by simp
  qed
qed

section \<open>The contract\<close>

definition is_gif :: "byte list \<Rightarrow> bool" where
  "is_gif bs \<longleftrightarrow> prefix (B ''GIF87a'') bs \<or> prefix (B ''GIF89a'') bs"

text \<open>The header with its colour table, and the file behind it.\<close>

definition gif_head :: "byte list \<Rightarrow> bool" where
  "gif_head h \<longleftrightarrow> length h = 13 + color_table (h ! 10)"

lemma gif_strip_eq:
  assumes "gif_head h" and "k \<noteq> []"
  shows "gif_strip (h @ k) = wrap Gif (gif_loop (h @ k) (length h) h [])"
  using assms by (simp add: gif_strip_def gif_head_def GIF_HEADER_def nth_append get_range_def)

lemma gif_split:
  assumes "gif_strip bs = Fine s \<or> gif_strip bs = Panic"
  obtains h k where "bs = h @ k" "gif_head h"
    "gif_strip bs = wrap Gif (gif_loop bs (length h) h [])"
proof -
  let ?n = "GIF_HEADER + color_table (bs ! 10)"
  have l: "GIF_HEADER < length bs" "?n \<le> length bs"
    using assms by (auto simp: gif_strip_def Let_def split: if_splits)
  then have "gif_head (take ?n bs)" by (simp add: gif_head_def GIF_HEADER_def)
  moreover have "gif_strip bs = wrap Gif (gif_loop bs (length (take ?n bs)) (take ?n bs) [])"
    using l by (simp add: gif_strip_def get_range_def Let_def)
  ultimately show ?thesis using that [of "take ?n bs" "drop ?n bs"] by simp
qed

interpretation gif: exact_stripper is_gif gif_strip 0
proof
  fix bs s
  assume bs: "is_gif bs"
  show "gif_strip bs \<noteq> Panic"
  proof
    assume "gif_strip bs = Panic"
    then obtain h k where "gif_strip bs = wrap Gif (gif_loop bs (length h) h [])"
      using gif_split by metis
    with \<open>gif_strip bs = Panic\<close> show False
      by (auto intro: adds_cases [OF gif_loop_adds [of bs "length h" h "[]"]])
  qed
  assume s: "gif_strip bs = Fine s"
  then obtain h r where h: "bs = h @ r" "gif_head h" "gif_strip bs = wrap Gif (gif_loop bs (length h) h [])"
    using gif_split by metis
  obtain k new where k: "gif_loop bs (length h) h [] = Fine (h @ k, new)"
    "length k + removed_sum new = length bs - length h" "gif_kept k"
    by (rule adds_cases [OF gif_loop_adds [of bs "length h" h "[]"]]) (use s h(3) in auto)
  have s': "s = \<lparr>st_kind = Gif, st_bytes = h @ k, st_removed = new\<rparr>" using s h(3) k(1) by simp
  then show "length (st_bytes s) + removed_bytes s = length bs"
    using k(2) h(1) by (simp add: removed_bytes_def)
  then show "length (st_bytes s) + removed_bytes s \<le> length bs" by simp
  have "6 \<le> length h" using h(2) by (simp add: gif_head_def)
  then have "prefix p (h @ r) \<Longrightarrow> length p = 6 \<Longrightarrow> prefix p (h @ k)" for p
    using prefix_length_prefix [of p "h @ r" h] by (auto intro: prefix_order.trans)
  then have "is_gif (h @ k)" using bs h(1) by (auto simp: is_gif_def)
  moreover have "gif_loop (h @ k) (length h) h [] = Fine (h @ k, [])" "k \<noteq> []"
    using k(3) by (auto simp: gif_kept_def)
  then have "gif_strip (h @ k) = Fine \<lparr>st_kind = Gif, st_bytes = h @ k, st_removed = []\<rparr>"
    using gif_strip_eq [OF h(2)] by simp
  ultimately show "is_gif (st_bytes s) \<and> gif_strip (st_bytes s) = Fine (s\<lparr>st_removed := []\<rparr>)"
    using s' by simp
qed

end
