(* ===== verification/Media.thy ===== *)
theory Media
  imports Media_Png Media_Webp Media_Jpeg Media_Gif
begin

text \<open>
  The stripper as the program calls it (\<^verbatim>\<open>core/ddirc-core/src/media/mod.rs\<close>): a file is
  recognised by its first bytes and handed to its format. The properties rest on the contract of the
  four formats.
\<close>

definition detect :: "byte list \<Rightarrow> media_kind option" where
  "detect bytes =
     (if prefix [0xFF, 0xD8, 0xFF] bytes then Some Jpeg
      else if prefix png_signature bytes then Some Png
      else if prefix (B ''GIF87a'') bytes \<or> prefix (B ''GIF89a'') bytes then Some Gif
      else if prefix (B ''RIFF'') bytes \<and> get_range bytes 8 12 = Some (B ''WEBP'') then Some WebP
      else None)"

definition media_strip :: "byte list \<Rightarrow> stripped outcome" where
  "media_strip bytes =
     (if bytes = [] then Failed EmptyFile
      else case detect bytes of
          None \<Rightarrow> Failed UnsupportedFile
        | Some Jpeg \<Rightarrow> jpeg_strip bytes
        | Some Png \<Rightarrow> png_strip bytes
        | Some Gif \<Rightarrow> gif_strip bytes
        | Some WebP \<Rightarrow> webp_strip bytes)"

lemma detect_iff:
  "detect bs = Some Jpeg \<longleftrightarrow> is_jpeg bs"
  "detect bs = Some Png \<longleftrightarrow> is_png bs"
  "detect bs = Some Gif \<longleftrightarrow> is_gif bs"
  "detect bs = Some WebP \<longleftrightarrow> is_webp bs"
  by (auto simp: detect_def is_gif_def is_webp_def png_signature_def prefix_def)

lemma media_strip_cases:
  obtains (none) e where "media_strip bs = Failed e"
    | (jpeg) "is_jpeg bs" "media_strip bs = jpeg_strip bs"
    | (png) "is_png bs" "media_strip bs = png_strip bs"
    | (gif) "is_gif bs" "media_strip bs = gif_strip bs"
    | (webp) "is_webp bs" "media_strip bs = webp_strip bs"
proof (cases "bs = [] \<or> detect bs = None")
  case True
  then have "\<exists>e. media_strip bs = Failed e" by (auto simp: media_strip_def)
  with none show ?thesis by blast
next
  case False
  then obtain k where k: "detect bs = Some k" "bs \<noteq> []" by auto
  then show ?thesis
    using jpeg png gif webp detect_iff [of bs] by (cases k) (auto simp: media_strip_def)
qed

lemma media_strip_kind:
  "is_jpeg bs \<Longrightarrow> media_strip bs = jpeg_strip bs" "is_png bs \<Longrightarrow> media_strip bs = png_strip bs"
  "is_gif bs \<Longrightarrow> media_strip bs = gif_strip bs" "is_webp bs \<Longrightarrow> media_strip bs = webp_strip bs"
  unfolding detect_iff [symmetric] by (auto simp: media_strip_def detect_def png_signature_def get_range_def)

lemma strip_kinds:
  "jpeg_strip bs = Fine s \<Longrightarrow> st_kind s = Jpeg" "png_strip bs = Fine s \<Longrightarrow> st_kind s = Png"
  "gif_strip bs = Fine s \<Longrightarrow> st_kind s = Gif" "webp_strip bs = Fine s \<Longrightarrow> st_kind s = WebP"
  by (auto simp: jpeg_strip_def png_strip_def gif_strip_def webp_strip_def wrap_def Let_def
      split: option.splits outcome.splits if_splits)

section \<open>Properties\<close>


text \<open>
  C10: A cleaned file is clean: unless nothing but metadata was in it (the result is no
  longer than a container header), stripping the result again succeeds, finds nothing to remove and
  returns the same bytes.
\<close>

theorem strip_leaves_nothing:
  assumes "media_strip bytes = Fine s" and "12 < length (st_bytes s)"
  shows "\<exists>s'. media_strip (st_bytes s) = Fine s' \<and> st_bytes s' = st_bytes s \<and> was_already_clean s'"
proof -
  from assms(2) have l0: "0 < length (st_bytes s)" and l8: "8 < length (st_bytes s)" by linarith+
  show ?thesis
  proof (cases rule: media_strip_cases [of bytes])
    case none
    with assms(1) show ?thesis by simp
  next
    case jpeg
    from jpeg.again_clean [OF jpeg(1) assms(1) [unfolded jpeg(2)] l0] media_strip_kind(1) [of "st_bytes s"]
    show ?thesis by auto
  next
    case png
    from png.again_clean [OF png(1) assms(1) [unfolded png(2)] l8] media_strip_kind(2) [of "st_bytes s"]
    show ?thesis by auto
  next
    case gif
    from gif.again_clean [OF gif(1) assms(1) [unfolded gif(2)] l0] media_strip_kind(3) [of "st_bytes s"]
    show ?thesis by auto
  next
    case webp
    from webp.again_clean [OF webp(1) assms(1) [unfolded webp(2)] assms(2)] media_strip_kind(4) [of "st_bytes s"]
    show ?thesis by auto
  qed
qed

text \<open>A GIF with an empty screen, a comment of one byte and a byte behind its end.\<close>

definition ex_gif :: "byte list" where
  "ex_gif = B ''GIF89a'' @ [1, 0, 1, 0, 0, 0, 0] @ [EXTENSION, COMMENT, 1, 65, 0] @ [TRAILER, 7]"

lemma ex_gif_stripped:
  "media_strip ex_gif = Fine \<lparr>st_kind = Gif, st_bytes = B ''GIF89a'' @ [1, 0, 1, 0, 0, 0, 0, TRAILER],
     st_removed = [\<lparr>rv_what = U ''comment'', rv_bytes = 5\<rparr>,
                   \<lparr>rv_what = U ''data after the end of the image'', rv_bytes = 1\<rparr>]\<rparr>"
  by (simp add: ex_gif_def media_strip_def detect_def png_signature_def gif_strip_def GIF_HEADER_def
      color_table_def get_range_def gif_loop.simps get_at_def end_of_sub_blocks.simps EXTENSION_def
      COMMENT_def TRAILER_def)

theorem strip_leaves_nothing_witness:
  "\<exists>s'. media_strip (B ''GIF89a'' @ [1, 0, 1, 0, 0, 0, 0, TRAILER]) = Fine s' \<and> was_already_clean s'"
  using strip_leaves_nothing [OF ex_gif_stripped] by auto

end
