(* ===== verification/Edits.thy ===== *)
theory Edits
  imports Rust_Str
begin

text \<open>
  The index of recent XMPP messages (\<^verbatim>\<open>core/ddirc-core/src/xmpp/edits.rs\<close>): a queue of entries
  with holes, and two nested maps from conversation and id to sequence numbers. The specification is
  the plain list of the entries that are held, searched from the newest: the maps are an
  optimisation of that search. Sequence numbers are natural numbers; a 64-bit counter of messages
  does not overflow. Building and reading stanzas belongs to the XMPP library and is left out.
\<close>

section \<open>The index\<close>

definition MAX_INDEXED :: nat where
  "MAX_INDEXED = 2000"

record entry =
  e_conversation :: ustring
  e_author :: ustring
  e_msgid :: ustring
  e_origin :: "ustring option"
  e_mine :: bool

type_synonym found = "(ustring, (ustring, nat list) hmap) hmap"

record msg_index =
  slots :: "entry option list"
  first_seq :: nat
  by_id :: found
  by_origin :: found

definition empty_index :: msg_index where
  "empty_index = \<lparr>slots = [], first_seq = 0, by_id = [], by_origin = []\<rparr>"

text \<open>\<open>slots.iter().flatten()\<close>: the entries held, oldest first.\<close>

definition live :: "msg_index \<Rightarrow> entry list" where
  "live ix = List.map_filter (\<lambda>s. s) (slots ix)"

definition index_len :: "msg_index \<Rightarrow> nat" where
  "index_len ix = length (live ix)"

definition index_is_empty :: "msg_index \<Rightarrow> bool" where
  "index_is_empty ix \<longleftrightarrow> list_all (\<lambda>s. s = None) (slots ix)"

definition at_seq :: "msg_index \<Rightarrow> nat \<Rightarrow> entry option" where
  "at_seq ix seq =
     (if seq < first_seq ix then None
      else if seq - first_seq ix < length (slots ix) then slots ix ! (seq - first_seq ix) else None)"

definition seqs_of :: "found \<Rightarrow> ustring \<Rightarrow> ustring \<Rightarrow> nat list" where
  "seqs_of f conv i =
     (case hm_get f conv of None \<Rightarrow> []
      | Some ids \<Rightarrow> (case hm_get ids i of None \<Rightarrow> [] | Some seqs \<Rightarrow> seqs))"

definition candidates :: "msg_index \<Rightarrow> found \<Rightarrow> ustring \<Rightarrow> ustring \<Rightarrow> entry list" where
  "candidates ix f conv i = List.map_filter (at_seq ix) (rev (seqs_of f conv i))"

definition file_seq :: "ustring \<Rightarrow> ustring \<Rightarrow> nat \<Rightarrow> found \<Rightarrow> found" where
  "file_seq conv i seq f =
     (let f = (if \<not> hm_has f conv then hm_insert conv [] f else f)
      in case hm_get f conv of
           None \<Rightarrow> f
         | Some ids \<Rightarrow>
             (case hm_get ids i of
                Some seqs \<Rightarrow> hm_insert conv (hm_insert i (seqs @ [seq]) ids) f
              | None \<Rightarrow> hm_insert conv (hm_insert i [seq] ids) f))"

definition unfile :: "ustring \<Rightarrow> ustring \<Rightarrow> nat \<Rightarrow> found \<Rightarrow> found" where
  "unfile conv i seq f =
     (case hm_get f conv of
        None \<Rightarrow> f
      | Some ids \<Rightarrow>
          let ids = (case hm_get ids i of
                None \<Rightarrow> ids
              | Some seqs \<Rightarrow>
                  let seqs = filter (\<lambda>s. s \<noteq> seq) seqs
                  in if seqs = [] then hm_remove i ids else hm_insert i seqs ids)
          in if ids = [] then hm_remove conv f else hm_insert conv ids f)"

definition unfile_entry :: "nat \<Rightarrow> entry \<Rightarrow> msg_index \<Rightarrow> msg_index" where
  "unfile_entry seq e ix =
     (let ix = ix\<lparr>by_id := unfile (e_conversation e) (e_msgid e) seq (by_id ix)\<rparr>
      in case e_origin e of
           None \<Rightarrow> ix
         | Some origin \<Rightarrow> ix\<lparr>by_origin := unfile (e_conversation e) origin seq (by_origin ix)\<rparr>)"

text \<open>The body of the loop of \<open>remove_where\<close>, and its second loop.\<close>

definition clear_slot :: "(entry \<Rightarrow> bool) \<Rightarrow> msg_index \<Rightarrow> nat \<Rightarrow> msg_index" where
  "clear_slot gone ix i =
     (case slots ix ! i of
        Some e \<Rightarrow>
          if gone e then unfile_entry (first_seq ix + i) e (ix\<lparr>slots := (slots ix)[i := None]\<rparr>) else ix
      | None \<Rightarrow> ix)"

function pop_holes :: "msg_index \<Rightarrow> msg_index" where
  "pop_holes ix =
     (case slots ix of
        None # rest \<Rightarrow> pop_holes (ix\<lparr>slots := rest, first_seq := first_seq ix + 1\<rparr>)
      | _ \<Rightarrow> ix)"
  by pat_completeness auto
termination
  by (relation "measure (\<lambda>ix. length (slots ix))") auto

declare pop_holes.simps [simp del]

definition remove_where :: "(entry \<Rightarrow> bool) \<Rightarrow> msg_index \<Rightarrow> msg_index" where
  "remove_where gone ix = pop_holes (foldl (clear_slot gone) ix [0..<length (slots ix)])"

text \<open>The eviction loop of \<open>record\<close>; an empty queue is below the limit.\<close>

function evict :: "msg_index \<Rightarrow> msg_index" where
  "evict ix =
     (if MAX_INDEXED \<le> length (slots ix) then
        case slots ix of
          [] \<Rightarrow> ix
        | s # rest \<Rightarrow>
            let ix' = ix\<lparr>slots := rest\<rparr>;
                ix' = (case s of Some old \<Rightarrow> unfile_entry (first_seq ix) old ix' | None \<Rightarrow> ix')
            in evict (ix'\<lparr>first_seq := first_seq ix + 1\<rparr>)
      else ix)"
  by pat_completeness auto
termination
  by (relation "measure (\<lambda>ix. length (slots ix))")
    (auto simp: unfile_entry_def Let_def split: option.splits)

declare evict.simps [simp del]

definition record_entry :: "entry \<Rightarrow> msg_index \<Rightarrow> msg_index" where
  "record_entry e ix =
     (if list_ex (\<lambda>d. e_author d = e_author e) (candidates ix (by_id ix) (e_conversation e) (e_msgid e)) then ix
      else
        let ix = evict ix;
            seq = first_seq ix + length (slots ix);
            ix = ix\<lparr>by_id := file_seq (e_conversation e) (e_msgid e) seq (by_id ix)\<rparr>;
            ix = (case e_origin e of
                    None \<Rightarrow> ix
                  | Some origin \<Rightarrow> ix\<lparr>by_origin := file_seq (e_conversation e) origin seq (by_origin ix)\<rparr>)
        in ix\<lparr>slots := slots ix @ [Some e]\<rparr>)"

definition contains_msg :: "msg_index \<Rightarrow> ustring \<Rightarrow> ustring \<Rightarrow> bool" where
  "contains_msg ix conv msgid \<longleftrightarrow> candidates ix (by_id ix) conv msgid \<noteq> []"

definition for_correction :: "msg_index \<Rightarrow> ustring \<Rightarrow> ustring \<Rightarrow> ustring \<Rightarrow> entry option" where
  "for_correction ix conv origin author =
     List.find (\<lambda>e. e_author e = author) (candidates ix (by_origin ix) conv origin)"

definition for_retraction :: "msg_index \<Rightarrow> ustring \<Rightarrow> ustring \<Rightarrow> ustring \<Rightarrow> entry option" where
  "for_retraction ix conv i author =
     List.find (\<lambda>e. e_author e = author)
       (candidates ix (by_id ix) conv i @ candidates ix (by_origin ix) conv i)"

definition ours :: "msg_index \<Rightarrow> ustring \<Rightarrow> ustring \<Rightarrow> entry option" where
  "ours ix conv msgid = List.find e_mine (candidates ix (by_id ix) conv msgid)"

definition forget_author :: "ustring \<Rightarrow> ustring \<Rightarrow> msg_index \<Rightarrow> msg_index" where
  "forget_author conv author = remove_where (\<lambda>e. e_conversation e = conv \<and> e_author e = author)"

definition forget_conversation :: "ustring \<Rightarrow> msg_index \<Rightarrow> msg_index" where
  "forget_conversation conv = remove_where (\<lambda>e. e_conversation e = conv)"

definition forget_conversation_prefix :: "ustring \<Rightarrow> msg_index \<Rightarrow> msg_index" where
  "forget_conversation_prefix p = remove_where (\<lambda>e. starts_with p (e_conversation e))"

definition renamed :: "ustring \<Rightarrow> ustring \<Rightarrow> ustring \<Rightarrow> entry \<Rightarrow> entry" where
  "renamed conv old new e =
     (if e_conversation e = conv \<and> e_author e = old then e\<lparr>e_author := new\<rparr> else e)"

definition rename_author :: "ustring \<Rightarrow> ustring \<Rightarrow> ustring \<Rightarrow> msg_index \<Rightarrow> msg_index" where
  "rename_author conv old new ix = ix\<lparr>slots := map (map_option (renamed conv old new)) (slots ix)\<rparr>"

definition forget :: "ustring \<Rightarrow> ustring \<Rightarrow> msg_index \<Rightarrow> msg_index" where
  "forget conv msgid = remove_where (\<lambda>e. e_conversation e = conv \<and> e_msgid e = msgid)"

section \<open>The maps and the queue agree\<close>

text \<open>The sequence numbers a map should hold for a key, read off the queue.\<close>

definition id_key :: "entry \<Rightarrow> (ustring \<times> ustring) option" where
  "id_key e = Some (e_conversation e, e_msgid e)"

definition origin_key :: "entry \<Rightarrow> (ustring \<times> ustring) option" where
  "origin_key e = map_option (Pair (e_conversation e)) (e_origin e)"

fun filed :: "(entry \<Rightarrow> (ustring \<times> ustring) option) \<Rightarrow> nat \<Rightarrow> entry option list \<Rightarrow> ustring \<times> ustring \<Rightarrow> nat list" where
  "filed key n [] k = []"
| "filed key n (s # ss) k =
     (if Option.bind s key = Some k then n # filed key (Suc n) ss k else filed key (Suc n) ss k)"

definition agrees :: "(entry \<Rightarrow> (ustring \<times> ustring) option) \<Rightarrow> found \<Rightarrow> nat \<Rightarrow> entry option list \<Rightarrow> bool" where
  "agrees key f n ss \<longleftrightarrow> (\<forall>conv i. seqs_of f conv i = filed key n ss (conv, i))"

definition index_ok :: "msg_index \<Rightarrow> bool" where
  "index_ok ix \<longleftrightarrow> agrees id_key (by_id ix) (first_seq ix) (slots ix)
     \<and> agrees origin_key (by_origin ix) (first_seq ix) (slots ix)
     \<and> length (slots ix) \<le> MAX_INDEXED"

lemma seqs_of_file:
  "seqs_of (file_seq conv i seq f) c j =
     (if (c, j) = (conv, i) then seqs_of f conv i @ [seq] else seqs_of f c j)"
  by (auto simp: seqs_of_def file_seq_def Let_def map_simps split: option.splits)

lemma seqs_of_unfile:
  "seqs_of (unfile conv i seq f) c j =
     (if (c, j) = (conv, i) then removeAll seq (seqs_of f conv i) else seqs_of f c j)"
proof (cases "hm_get f conv")
  case None
  then show ?thesis by (auto simp: seqs_of_def unfile_def)
next
  case (Some ids)
  define ids' where "ids' = (case hm_get ids i of
      None \<Rightarrow> ids
    | Some seqs \<Rightarrow>
        let seqs = filter (\<lambda>s. s \<noteq> seq) seqs
        in if seqs = [] then hm_remove i ids else hm_insert i seqs ids)"
  have u: "unfile conv i seq f = (if ids' = [] then hm_remove conv f else hm_insert conv ids' f)"
    unfolding unfile_def by (simp add: Some ids'_def Let_def)
  have "seqs_of (unfile conv i seq f) conv j = (case hm_get ids' j of None \<Rightarrow> [] | Some seqs \<Rightarrow> seqs)"
    by (simp add: u seqs_of_def map_simps)
  also have "\<dots> = (if j = i then removeAll seq (seqs_of f conv i) else seqs_of f conv j)"
    by (auto simp: ids'_def seqs_of_def Some Let_def map_simps removeAll_filter_not_eq neq_commute
        split: option.splits)
  finally have "seqs_of (unfile conv i seq f) conv j =
      (if j = i then removeAll seq (seqs_of f conv i) else seqs_of f conv j)" .
  moreover have "c \<noteq> conv \<Longrightarrow> seqs_of (unfile conv i seq f) c j = seqs_of f c j"
    by (simp add: u seqs_of_def map_simps)
  ultimately show ?thesis by (cases "c = conv") auto
qed

lemma filed_append:
  "filed key n (ss @ ts) k = filed key n ss k @ filed key (n + length ss) ts k"
  by (induction ss arbitrary: n) auto

lemma filed_bounds: "s \<in> set (filed key n ss k) \<Longrightarrow> n \<le> s \<and> s < n + length ss"
  by (induction ss arbitrary: n) (fastforce split: if_splits)+

lemma filed_map:
  "(\<And>e. key (g e) = key e) \<Longrightarrow> filed key n (map (map_option g) ss) k = filed key n ss k"
proof (induction ss arbitrary: n)
  case (Cons s ss)
  then have "Option.bind (map_option g s) key = Option.bind s key" by (cases s) auto
  with Cons show ?case by simp
qed simp

lemma filed_clear:
  assumes "i < length ss"
  shows "filed key n (ss[i := None]) k = removeAll (n + i) (filed key n ss k)"
proof -
  let ?a = "take i ss" and ?b = "drop (Suc i) ss"
  have ss: "ss = ?a @ ss ! i # ?b" using assms by (rule id_take_nth_drop)
  have upd: "ss[i := None] = ?a @ None # ?b" using assms by (rule upd_conv_take_nth_drop)
  have len: "length ?a = i" using assms by simp
  have "n + i \<notin> set (filed key n ?a k)" "n + i \<notin> set (filed key (Suc (n + i)) ?b k)"
    using filed_bounds [of "n + i" key n ?a k] filed_bounds [of "n + i" key "Suc (n + i)" ?b k] len by auto
  moreover have "filed key n ss k = filed key n ?a k
      @ (if Option.bind (ss ! i) key = Some k then [n + i] else []) @ filed key (Suc (n + i)) ?b k"
    using assms by (subst ss) (simp add: filed_append min_absorb2)
  ultimately show ?thesis
    using assms unfolding upd by (simp add: filed_append min_absorb2 removeAll_id)
qed

section \<open>Every operation keeps the agreement\<close>

lemma unfile_entry_frame [simp]:
  "slots (unfile_entry seq e ix) = slots ix" "first_seq (unfile_entry seq e ix) = first_seq ix"
  by (simp_all add: unfile_entry_def Let_def split: option.splits)

text \<open>Unfiling an entry takes its number out from under its keys.\<close>

definition unfiled :: "(entry \<Rightarrow> (ustring \<times> ustring) option) \<Rightarrow> nat \<Rightarrow> entry \<Rightarrow> found \<Rightarrow> found \<Rightarrow> bool" where
  "unfiled key seq e f f' \<longleftrightarrow> (\<forall>conv i. seqs_of f' conv i =
     (if key e = Some (conv, i) then removeAll seq (seqs_of f conv i) else seqs_of f conv i))"

lemma unfile_entry_unfiled:
  "unfiled id_key seq e (by_id ix) (by_id (unfile_entry seq e ix))"
  "unfiled origin_key seq e (by_origin ix) (by_origin (unfile_entry seq e ix))"
  by (auto simp: unfiled_def unfile_entry_def id_key_def origin_key_def seqs_of_unfile Let_def
      split: option.splits)

lemma filed_only: "i < length ss \<Longrightarrow> ss ! i = Some e \<Longrightarrow> key e \<noteq> Some k \<Longrightarrow> n + i \<notin> set (filed key n ss k)"
proof (induction ss arbitrary: n i)
  case (Cons s ss)
  show ?case
  proof (cases i)
    case 0
    with Cons.prems show ?thesis using filed_bounds [of n key "Suc n" ss k] by auto
  next
    case (Suc j)
    with Cons.prems Cons.IH [of j "Suc n"] show ?thesis by auto
  qed
qed simp

lemma agrees_clear:
  assumes "agrees key f n ss" and i: "i < length ss" "ss ! i = Some e" and "unfiled key (n + i) e f f'"
  shows "agrees key f' n (ss[i := None])"
  unfolding agrees_def
proof (intro allI)
  fix conv j
  show "seqs_of f' conv j = filed key n (ss[i := None]) (conv, j)"
    using assms filed_only [OF i, of key "(conv, j)" n]
    by (auto simp: agrees_def unfiled_def filed_clear removeAll_id)
qed

lemma agrees_pop:
  assumes "agrees key f n (s # ss)"
    and "case s of None \<Rightarrow> f' = f | Some e \<Rightarrow> unfiled key n e f f'"
  shows "agrees key f' (Suc n) ss"
  unfolding agrees_def
proof (intro allI)
  fix conv j
  have "n \<notin> set (filed key (Suc n) ss (conv, j))" using filed_bounds [of n key "Suc n" ss] by auto
  then show "seqs_of f' conv j = filed key (Suc n) ss (conv, j)"
    using assms by (auto simp: agrees_def unfiled_def removeAll_id split: option.splits)
qed

lemma clear_slot_ok:
  assumes ok: "index_ok ix" and i: "i < length (slots ix)"
  shows "index_ok (clear_slot gone ix i)"
    and "slots (clear_slot gone ix i) =
      (slots ix)[i := (case slots ix ! i of Some e \<Rightarrow> if gone e then None else Some e | None \<Rightarrow> None)]"
    and "first_seq (clear_slot gone ix i) = first_seq ix"
proof -
  show "index_ok (clear_slot gone ix i)"
  proof (cases "slots ix ! i")
    case (Some e)
    let ?ix = "ix\<lparr>slots := (slots ix)[i := None]\<rparr>"
    have "index_ok (unfile_entry (first_seq ix + i) e ?ix)"
      using ok agrees_clear [OF _ i Some unfile_entry_unfiled(1) [of "first_seq ix + i" e ?ix, simplified]]
        agrees_clear [OF _ i Some unfile_entry_unfiled(2) [of "first_seq ix + i" e ?ix, simplified]]
      by (auto simp: index_ok_def)
    with ok Some show ?thesis by (simp add: clear_slot_def)
  qed (use ok in \<open>simp add: clear_slot_def\<close>)
  show "slots (clear_slot gone ix i) =
      (slots ix)[i := (case slots ix ! i of Some e \<Rightarrow> if gone e then None else Some e | None \<Rightarrow> None)]"
    by (auto simp: clear_slot_def split: option.splits) (metis list_update_id)+
  show "first_seq (clear_slot gone ix i) = first_seq ix"
    by (simp add: clear_slot_def split: option.splits)
qed

abbreviation keep_slot :: "(entry \<Rightarrow> bool) \<Rightarrow> entry option \<Rightarrow> entry option" where
  "keep_slot gone s \<equiv> (case s of Some e \<Rightarrow> if gone e then None else Some e | None \<Rightarrow> None)"

lemma clear_loop:
  assumes "index_ok ix" and "n \<le> length (slots ix)"
  shows "index_ok (foldl (clear_slot gone) ix [0..<n])
    \<and> slots (foldl (clear_slot gone) ix [0..<n]) = map (keep_slot gone) (take n (slots ix)) @ drop n (slots ix)"
  using assms(2)
proof (induction n)
  case 0
  with assms(1) show ?case by simp
next
  case (Suc n)
  let ?ix = "foldl (clear_slot gone) ix [0..<n]" and ?ss = "slots ix"
  have IH: "index_ok ?ix" "slots ?ix = map (keep_slot gone) (take n ?ss) @ drop n ?ss"
    using Suc by simp_all
  have n: "n < length ?ss" using Suc.prems by simp
  then have len: "n < length (slots ?ix)" and at: "slots ?ix ! n = ?ss ! n"
    by (simp_all add: IH(2) nth_append)
  have d: "drop n ?ss = ?ss ! n # drop (Suc n) ?ss" using n by (simp add: Cons_nth_drop_Suc)
  have t: "take (Suc n) ?ss = take n ?ss @ [?ss ! n]" using n by (simp add: take_Suc_conv_app_nth)
  have "slots (clear_slot gone ?ix n) = map (keep_slot gone) (take (Suc n) ?ss) @ drop (Suc n) ?ss"
    unfolding clear_slot_ok(2) [OF IH(1) len] at unfolding IH(2) d t
    using n by (simp add: list_update_append min_absorb2)
  then show ?case using clear_slot_ok(1) [OF IH(1) len, of gone] by simp
qed

lemma map_filter_id_simps [simp]:
  "List.map_filter (\<lambda>s. s) [] = []" "List.map_filter (\<lambda>s. s) (None # ss) = List.map_filter (\<lambda>s. s) ss"
  "List.map_filter (\<lambda>s. s) (Some e # ss) = e # List.map_filter (\<lambda>s. s) ss"
  by (simp_all add: List.map_filter_def)

lemma map_filter_id_append [simp]:
  "List.map_filter (\<lambda>s. s) (ss @ ts) = List.map_filter (\<lambda>s. s) ss @ List.map_filter (\<lambda>s. s) ts"
  by (simp add: List.map_filter_def)

lemma map_filter_keep:
  "List.map_filter (\<lambda>s. s) (map (keep_slot gone) ss) = filter (\<lambda>e. \<not> gone e) (List.map_filter (\<lambda>s. s) ss)"
proof (induction ss)
  case (Cons s ss)
  then show ?case by (cases s) auto
qed simp

lemma pop_holes_ok:
  "index_ok ix \<Longrightarrow> index_ok (pop_holes ix) \<and> live (pop_holes ix) = live ix"
proof (induction ix rule: pop_holes.induct)
  case (1 ix)
  show ?case
  proof (cases "\<exists>rest. slots ix = None # rest")
    case True
    then obtain rest where r: "slots ix = None # rest" by blast
    let ?ix = "ix\<lparr>slots := rest, first_seq := first_seq ix + 1\<rparr>"
    have "index_ok ?ix"
      using 1(2) agrees_pop [of id_key "by_id ix" "first_seq ix" None rest "by_id ix"]
        agrees_pop [of origin_key "by_origin ix" "first_seq ix" None rest "by_origin ix"]
      by (auto simp: index_ok_def r)
    with 1(1) [OF r refl] r show ?thesis
      by (subst (1 2) pop_holes.simps) (simp add: live_def)
  next
    case False
    then have "pop_holes ix = ix"
      by (subst pop_holes.simps) (auto split: list.splits option.splits)
    with 1(2) show ?thesis by simp
  qed
qed

lemma remove_where_ok:
  assumes "index_ok ix"
  shows "index_ok (remove_where gone ix)"
    and "live (remove_where gone ix) = filter (\<lambda>e. \<not> gone e) (live ix)"
proof -
  let ?ix = "foldl (clear_slot gone) ix [0..<length (slots ix)]"
  from clear_loop [OF assms order_refl, of gone]
  have "index_ok ?ix" "live ?ix = filter (\<lambda>e. \<not> gone e) (live ix)"
    by (auto simp: live_def map_filter_keep)
  with pop_holes_ok [of ?ix]
  show "index_ok (remove_where gone ix)"
    "live (remove_where gone ix) = filter (\<lambda>e. \<not> gone e) (live ix)"
    by (auto simp: remove_where_def)
qed

lemma evict_ok:
  assumes "index_ok ix"
  shows "index_ok (evict ix) \<and> length (slots (evict ix)) < MAX_INDEXED
    \<and> (\<exists>k. live (evict ix) = drop k (live ix))
    \<and> (length (slots ix) < MAX_INDEXED \<longrightarrow> evict ix = ix)"
  using assms
proof (induction ix rule: evict.induct)
  case (1 ix)
  show ?case
  proof (cases "MAX_INDEXED \<le> length (slots ix)")
    case False
    then have "evict ix = ix" by (subst evict.simps) simp
    with False 1(2) show ?thesis by (auto intro: exI [of _ 0])
  next
    case full: True
    then obtain s rest where r: "slots ix = s # rest"
      by (cases "slots ix") (auto simp: MAX_INDEXED_def)
    define ix1 where "ix1 = (case s of Some old \<Rightarrow> unfile_entry (first_seq ix) old (ix\<lparr>slots := rest\<rparr>)
      | None \<Rightarrow> ix\<lparr>slots := rest\<rparr>)"
    let ?ix = "ix1\<lparr>first_seq := first_seq ix + 1\<rparr>"
    have e: "evict ix = evict ?ix" using full r by (subst evict.simps) (simp add: ix1_def Let_def)
    have s1: "slots ix1 = rest" by (simp add: ix1_def split: option.splits)
    have "case s of None \<Rightarrow> by_id ix1 = by_id ix | Some e \<Rightarrow> unfiled id_key (first_seq ix) e (by_id ix) (by_id ix1)"
      and "case s of None \<Rightarrow> by_origin ix1 = by_origin ix
        | Some e \<Rightarrow> unfiled origin_key (first_seq ix) e (by_origin ix) (by_origin ix1)"
      using unfile_entry_unfiled [of "first_seq ix" _ "ix\<lparr>slots := rest\<rparr>"]
      by (simp_all add: ix1_def split: option.splits)
    then have "index_ok ?ix"
      using 1(2) agrees_pop [of id_key "by_id ix" "first_seq ix" s rest "by_id ix1"]
        agrees_pop [of origin_key "by_origin ix" "first_seq ix" s rest "by_origin ix1"] s1 r
      by (auto simp: index_ok_def)
    moreover have "\<exists>k. live ?ix = drop k (live ix)"
      using r s1 by (cases s) (auto simp: live_def intro: exI [of _ 0] exI [of _ "1 :: nat"])
    ultimately show ?thesis
      using 1(1) [OF full r refl ix1_def] e full by (metis drop_drop not_le)
  qed
qed

lemma rename_ok:
  assumes "index_ok ix"
  shows "index_ok (rename_author conv old new ix)"
    and "live (rename_author conv old new ix) = map (renamed conv old new) (live ix)"
proof -
  have "id_key (renamed conv old new e) = id_key e" "origin_key (renamed conv old new e) = origin_key e" for e
    by (simp_all add: renamed_def id_key_def origin_key_def)
  with assms show "index_ok (rename_author conv old new ix)"
    by (simp add: index_ok_def rename_author_def agrees_def filed_map)
  have "List.map_filter (\<lambda>s. s) (map (map_option g) ss) = map g (List.map_filter (\<lambda>s. s) ss)"
    for g :: "entry \<Rightarrow> entry" and ss
  proof (induction ss)
    case (Cons s ss)
    then show ?case by (cases s) auto
  qed simp
  then show "live (rename_author conv old new ix) = map (renamed conv old new) (live ix)"
    by (simp add: live_def rename_author_def)
qed

lemma candidates_queue:
  assumes "\<And>j. j < length ss \<Longrightarrow> g (n + j) = ss ! j"
  shows "List.map_filter g (filed key n ss k) = filter (\<lambda>e. key e = Some k) (List.map_filter (\<lambda>s. s) ss)"
  using assms
proof (induction ss arbitrary: n)
  case (Cons s ss)
  have "g (Suc n + j) = ss ! j" if "j < length ss" for j
    using Cons.prems [of "Suc j"] that by simp
  note IH = Cons.IH [OF this]
  have "g n = s" using Cons.prems [of 0] by simp
  with IH show ?case by (cases s) (auto simp: List.map_filter_def)
qed (simp add: List.map_filter_def)

lemma map_filter_rev: "List.map_filter g (rev xs) = rev (List.map_filter g xs)"
  by (simp add: List.map_filter_def rev_map rev_filter)

lemma candidates_eq:
  assumes "index_ok ix"
  shows "candidates ix (by_id ix) c i = rev (filter (\<lambda>e. id_key e = Some (c, i)) (live ix))"
    and "candidates ix (by_origin ix) c i = rev (filter (\<lambda>e. origin_key e = Some (c, i)) (live ix))"
proof -
  have "at_seq ix (first_seq ix + j) = slots ix ! j" if "j < length (slots ix)" for j
    using that by (simp add: at_seq_def)
  note q = candidates_queue [of "slots ix" "at_seq ix" "first_seq ix", OF this]
  from assms show "candidates ix (by_id ix) c i = rev (filter (\<lambda>e. id_key e = Some (c, i)) (live ix))"
    "candidates ix (by_origin ix) c i = rev (filter (\<lambda>e. origin_key e = Some (c, i)) (live ix))"
    by (simp_all add: candidates_def index_ok_def agrees_def map_filter_rev q live_def)
qed

lemma agrees_file:
  assumes "agrees key f n ss"
    and "\<And>c i. seqs_of f' c i = (if key e = Some (c, i) then seqs_of f c i @ [n + length ss] else seqs_of f c i)"
  shows "agrees key f' n (ss @ [Some e])"
  using assms by (auto simp: agrees_def filed_append)

abbreviation same_message :: "entry \<Rightarrow> entry \<Rightarrow> bool" where
  "same_message e d \<equiv> e_conversation d = e_conversation e \<and> e_msgid d = e_msgid e \<and> e_author d = e_author e"

lemma record_ok:
  assumes ok: "index_ok ix"
  shows "index_ok (record_entry e ix)"
    and "if list_ex (same_message e) (live ix) then record_entry e ix = ix
         else \<exists>k. live (record_entry e ix) = drop k (live ix) @ [e]
           \<and> (k = 0 \<or> MAX_INDEXED \<le> length (slots ix))"
proof -
  have dup: "list_ex (\<lambda>d. e_author d = e_author e) (candidates ix (by_id ix) (e_conversation e) (e_msgid e))
      \<longleftrightarrow> list_ex (same_message e) (live ix)"
    unfolding candidates_eq(1) [OF ok] by (auto simp: list_ex_iff id_key_def)
  let ?ix = "evict ix"
  let ?new = "record_entry e ix"
  have e: "index_ok ?ix" "length (slots ?ix) < MAX_INDEXED" "\<exists>k. live ?ix = drop k (live ix)"
    "length (slots ix) < MAX_INDEXED \<longrightarrow> ?ix = ix"
    using evict_ok [OF ok] by blast+
  have new: "slots ?new = slots ?ix @ [Some e]" "first_seq ?new = first_seq ?ix"
    "seqs_of (by_id ?new) c i = (if id_key e = Some (c, i)
       then seqs_of (by_id ?ix) c i @ [first_seq ?ix + length (slots ?ix)] else seqs_of (by_id ?ix) c i)"
    "seqs_of (by_origin ?new) c i = (if origin_key e = Some (c, i)
       then seqs_of (by_origin ?ix) c i @ [first_seq ?ix + length (slots ?ix)] else seqs_of (by_origin ?ix) c i)"
    if "\<not> list_ex (same_message e) (live ix)" for c i
    using that dup
    by (auto simp: record_entry_def Let_def seqs_of_file id_key_def origin_key_def split: option.splits)
  show "index_ok ?new"
  proof (cases "list_ex (same_message e) (live ix)")
    case True
    with ok dup show ?thesis by (simp add: record_entry_def)
  next
    case False
    show ?thesis
      unfolding index_ok_def new(1, 2) [OF False]
      using e(1, 2)
        agrees_file [where key = id_key and e = e and f = "by_id ?ix", OF _ new(3) [OF False]]
        agrees_file [where key = origin_key and e = e and f = "by_origin ?ix", OF _ new(4) [OF False]]
      by (auto simp: index_ok_def)
  qed
  show "if list_ex (same_message e) (live ix) then ?new = ix
        else \<exists>k. live ?new = drop k (live ix) @ [e] \<and> (k = 0 \<or> MAX_INDEXED \<le> length (slots ix))"
  proof (cases "list_ex (same_message e) (live ix)")
    case True
    with dup show ?thesis by (simp add: record_entry_def)
  next
    case False
    have l: "live ?new = live ?ix @ [e]" unfolding live_def new(1) [OF False] by simp
    show ?thesis
    proof (cases "MAX_INDEXED \<le> length (slots ix)")
      case True
      with l e(3) False show ?thesis by (metis (lifting))
    next
      case short: False
      with e(4) l have "live ?new = drop 0 (live ix) @ [e]" by simp
      with False show ?thesis by (metis (lifting))
    qed
  qed
qed

section \<open>The store a conversation relies on\<close>

text \<open>
  What the session relies on: recording appends or changes nothing, removal filters, and a lookup is a
  search from the newest entry.
\<close>

locale entry_store =
  fixes ok :: "'s \<Rightarrow> bool"
    and held :: "'s \<Rightarrow> entry list"
    and remove :: "(entry \<Rightarrow> bool) \<Rightarrow> 's \<Rightarrow> 's"
    and by_key :: "'s \<Rightarrow> ustring \<Rightarrow> ustring \<Rightarrow> entry list"
    and key :: "entry \<Rightarrow> (ustring \<times> ustring) option"
  assumes ok_remove: "ok s \<Longrightarrow> ok (remove gone s)"
    and held_remove: "ok s \<Longrightarrow> held (remove gone s) = filter (\<lambda>e. \<not> gone e) (held s)"
    and by_key_held: "ok s \<Longrightarrow> by_key s c i = rev (filter (\<lambda>e. key e = Some (c, i)) (held s))"
begin

lemma find_by_key:
  "ok s \<Longrightarrow> List.find P (by_key s c i) = List.find (\<lambda>e. key e = Some (c, i) \<and> P e) (rev (held s))"
proof -
  have "List.find P (filter Q xs) = List.find (\<lambda>e. Q e \<and> P e) xs" for Q and xs :: "entry list"
    by (induction xs) auto
  then show "ok s \<Longrightarrow> ?thesis" by (simp add: by_key_held rev_filter)
qed

lemma removed_not_found:
  assumes "ok s" and "\<And>e. key e = Some (c, i) \<Longrightarrow> P e \<Longrightarrow> gone e"
  shows "List.find P (by_key (remove gone s) c i) = None"
  using assms by (auto simp: find_by_key ok_remove held_remove find_None_iff)

end

interpretation ids: entry_store index_ok live remove_where "\<lambda>ix. candidates ix (by_id ix)" id_key
  by unfold_locales (simp_all add: remove_where_ok candidates_eq)

interpretation origins: entry_store index_ok live remove_where "\<lambda>ix. candidates ix (by_origin ix)" origin_key
  by unfold_locales (simp_all add: remove_where_ok candidates_eq)

section \<open>Any sequence of operations\<close>

datatype index_op =
    Record entry
  | ForgetAuthor ustring ustring
  | ForgetConversation ustring
  | ForgetPrefix ustring
  | RenameAuthor ustring ustring ustring
  | Forget ustring ustring

primrec index_step :: "index_op \<Rightarrow> msg_index \<Rightarrow> msg_index" where
  "index_step (Record e) = record_entry e"
| "index_step (ForgetAuthor c a) = forget_author c a"
| "index_step (ForgetConversation c) = forget_conversation c"
| "index_step (ForgetPrefix p) = forget_conversation_prefix p"
| "index_step (RenameAuthor c old new) = rename_author c old new"
| "index_step (Forget c m) = forget c m"

definition index_run :: "index_op list \<Rightarrow> msg_index" where
  "index_run ops = fold index_step ops empty_index"

lemmas forget_defs = forget_author_def forget_conversation_def forget_conversation_prefix_def forget_def

lemma index_step_ok: "index_ok ix \<Longrightarrow> index_ok (index_step op ix)"
  by (cases op) (simp_all add: forget_defs remove_where_ok rename_ok record_ok)

lemma index_run_ok: "index_ok (index_run ops)"
proof -
  have "index_ok ix \<Longrightarrow> index_ok (fold index_step ops ix)" for ix
    by (induction ops arbitrary: ix) (simp_all add: index_step_ok)
  moreover have "index_ok empty_index"
    by (simp add: index_ok_def empty_index_def agrees_def seqs_of_def)
  ultimately show ?thesis by (simp add: index_run_def)
qed

text \<open>The specification: the same operations on a plain list of entries, oldest first.\<close>

fun list_step :: "bool \<Rightarrow> index_op \<Rightarrow> entry list \<Rightarrow> entry list \<Rightarrow> bool" where
  "list_step full (Record e) xs ys =
     (if list_ex (same_message e) xs then ys = xs
      else \<exists>k. ys = drop k xs @ [e] \<and> (k = 0 \<or> full))"
| "list_step full (ForgetAuthor c a) xs ys =
     (ys = filter (\<lambda>e. \<not> (e_conversation e = c \<and> e_author e = a)) xs)"
| "list_step full (ForgetConversation c) xs ys = (ys = filter (\<lambda>e. e_conversation e \<noteq> c) xs)"
| "list_step full (ForgetPrefix p) xs ys = (ys = filter (\<lambda>e. \<not> prefix p (e_conversation e)) xs)"
| "list_step full (RenameAuthor c old new) xs ys =
     (ys = map (\<lambda>e. if e_conversation e = c \<and> e_author e = old then e\<lparr>e_author := new\<rparr> else e) xs)"
| "list_step full (Forget c m) xs ys =
     (ys = filter (\<lambda>e. \<not> (e_conversation e = c \<and> e_msgid e = m)) xs)"

lemma index_step_list:
  assumes "index_ok ix"
  shows "list_step (MAX_INDEXED \<le> length (slots ix)) op (live ix) (live (index_step op ix))"
proof (cases op)
  case (Record e)
  with record_ok(2) [OF assms, of e] show ?thesis by (auto split: if_splits)
next
  case (RenameAuthor c old new)
  with rename_ok(2) [OF assms, of c old new] show ?thesis by (simp add: renamed_def)
qed (simp_all add: forget_defs remove_where_ok(2) [OF assms] starts_with_def)

lemma find_append:
  "List.find P (xs @ ys) = (case List.find P xs of Some e \<Rightarrow> Some e | None \<Rightarrow> List.find P ys)"
  by (induction xs) auto

lemma map_filter_length: "length (List.map_filter (\<lambda>s. s) ss) \<le> length ss"
  by (simp add: List.map_filter_def)

section \<open>Properties\<close>

text \<open>
  C7: After any sequence of operations the index is the plain list of its entries: each further
  operation acts on that list as the specification says, at most 2,000 entries are held, and every
  lookup through the two maps gives what a search of the list from its newest entry gives.
\<close>

theorem index_refines:
  "list_step (MAX_INDEXED \<le> length (slots (index_run ops))) op (live (index_run ops))
     (live (index_step op (index_run ops)))
   \<and> length (live (index_run ops)) \<le> 2000
   \<and> contains_msg (index_run ops) c i
       = list_ex (\<lambda>e. e_conversation e = c \<and> e_msgid e = i) (live (index_run ops))
   \<and> for_correction (index_run ops) c i a
       = List.find (\<lambda>e. e_conversation e = c \<and> e_origin e = Some i \<and> e_author e = a) (rev (live (index_run ops)))
   \<and> for_retraction (index_run ops) c i a
       = (case List.find (\<lambda>e. e_conversation e = c \<and> e_msgid e = i \<and> e_author e = a)
                 (rev (live (index_run ops))) of
            Some e \<Rightarrow> Some e
          | None \<Rightarrow> List.find (\<lambda>e. e_conversation e = c \<and> e_origin e = Some i \<and> e_author e = a)
                      (rev (live (index_run ops))))
   \<and> ours (index_run ops) c i
       = List.find (\<lambda>e. e_conversation e = c \<and> e_msgid e = i \<and> e_mine e) (rev (live (index_run ops)))"
proof -
  let ?ix = "index_run ops"
  note ok = index_run_ok [of ops]
  have len: "length (live ?ix) \<le> 2000"
    using ok map_filter_length [of "slots ?ix"] by (simp add: index_ok_def MAX_INDEXED_def live_def)
  have keys: "id_key e = Some (c, i) \<longleftrightarrow> e_conversation e = c \<and> e_msgid e = i"
    "origin_key e = Some (c, i) \<longleftrightarrow> e_conversation e = c \<and> e_origin e = Some i" for e
    by (auto simp: id_key_def origin_key_def)
  have "contains_msg ?ix c i = list_ex (\<lambda>e. e_conversation e = c \<and> e_msgid e = i) (live ?ix)"
    by (simp add: contains_msg_def candidates_eq(1) [OF ok] keys filter_empty_conv list_ex_iff)
  moreover have "List.find P (candidates ?ix (by_id ?ix) c i)
      = List.find (\<lambda>e. e_conversation e = c \<and> e_msgid e = i \<and> P e) (rev (live ?ix))"
    and "List.find P (candidates ?ix (by_origin ?ix) c i)
      = List.find (\<lambda>e. e_conversation e = c \<and> e_origin e = Some i \<and> P e) (rev (live ?ix))" for P
    by (simp_all only: ids.find_by_key [OF ok] origins.find_by_key [OF ok] keys conj_assoc)
  ultimately show ?thesis
    using index_step_list [OF ok, of op] len
    unfolding for_correction_def for_retraction_def ours_def find_append by (simp cong: option.case_cong)
qed

text \<open>
  C22: Whoever takes a nickname over in a room can change nothing its last holder said: once the
  author who left is forgotten, no correction and no retraction under that name finds a message there.
\<close>

theorem nick_reuse_powerless:
  "for_correction (forget_author c a (index_run ops)) c i a = None
   \<and> for_retraction (forget_author c a (index_run ops)) c i a = None"
proof -
  note ok = index_run_ok [of ops]
  let ?gone = "\<lambda>e. e_conversation e = c \<and> e_author e = a"
  have "List.find (\<lambda>e. e_author e = a) (candidates (remove_where ?gone (index_run ops))
      (by_origin (remove_where ?gone (index_run ops))) c i) = None"
    by (rule origins.removed_not_found [OF ok]) (auto simp: origin_key_def)
  moreover have "List.find (\<lambda>e. e_author e = a) (candidates (remove_where ?gone (index_run ops))
      (by_id (remove_where ?gone (index_run ops))) c i) = None"
    by (rule ids.removed_not_found [OF ok]) (auto simp: id_key_def)
  ultimately show ?thesis
    unfolding forget_author_def for_correction_def for_retraction_def find_append by simp
qed

end
