(* ===== verification/Xmpp_Room.thy ===== *)
theory Xmpp_Room
  imports Session
begin

text \<open>
  XMPP rooms (\<^verbatim>\<open>core/ddirc-core/src/xmpp/state.rs\<close>): names and lines from the network made safe,
  the standing of an occupant, the occupants, and the window of message ids that keeps a message from
  being shown twice. A bare address is its string; affiliation and role are the XMPP library's enums.
\<close>

definition is_layout_control :: "uchar \<Rightarrow> bool" where
  "is_layout_control c \<longleftrightarrow> c = 0x200E \<or> c = 0x200F \<or> 0x202A \<le> c \<and> c \<le> 0x202E \<or> 0x2066 \<le> c \<and> c \<le> 0x2069"

definition clean_name :: "ustring \<Rightarrow> ustring" where
  "clean_name name = take MAX_NICK (filter (\<lambda>c. \<not> is_control c \<and> \<not> is_layout_control c) name)"

definition clean_line :: "ustring \<Rightarrow> nat \<Rightarrow> ustring" where
  "clean_line line bound =
     trim (take bound (filter (\<lambda>c. \<not> is_layout_control c)
       (map (\<lambda>c. if is_control c then ch (CHR '' '') else c) line)))"

definition is_word_char :: "(uchar \<Rightarrow> bool) \<Rightarrow> uchar \<Rightarrow> bool" where
  "is_word_char alnum c \<longleftrightarrow> alnum c \<or> c \<in> set (U ''_-'')"

definition mentions :: "(uchar \<Rightarrow> bool) \<Rightarrow> (uchar \<Rightarrow> ustring) \<Rightarrow> ustring \<Rightarrow> ustring \<Rightarrow> bool" where
  "mentions alnum lower nick line =
     (let needle = concat (map lower nick); haystack = concat (map lower line)
      in if needle = [] then False else whole_word (is_word_char alnum) needle haystack)"

section \<open>Occupants\<close>

datatype affiliation = Owner | Admin | MemberAff | Outcast | NoAffiliation

datatype muc_role = Moderator | Participant | Visitor | NoRole

record occupant =
  oc_nick :: ustring
  oc_affiliation :: affiliation
  oc_role :: muc_role
  oc_away :: bool

definition occupant_prefix :: "occupant \<Rightarrow> uchar option" where
  "occupant_prefix oc =
     (case (oc_affiliation oc, oc_role oc) of
        (Owner, _) \<Rightarrow> Some (ch (CHR ''~''))
      | (Admin, _) \<Rightarrow> Some (ch (CHR ''&''))
      | (_, Moderator) \<Rightarrow> Some (ch (CHR ''@''))
      | (MemberAff, _) \<Rightarrow> Some (ch (CHR ''+''))
      | _ \<Rightarrow> None)"

definition occupant_rank :: "occupant \<Rightarrow> nat" where
  "occupant_rank oc =
     (let p = occupant_prefix oc
      in if p = Some (ch (CHR ''~'')) then 0
         else if p = Some (ch (CHR ''&'')) then 1
         else if p = Some (ch (CHR ''@'')) then 2
         else if p = Some (ch (CHR ''+'')) then 3
         else 0xFFFF)"

definition occupant_sort_key :: "(uchar \<Rightarrow> ustring) \<Rightarrow> occupant \<Rightarrow> ustring" where
  "occupant_sort_key lower oc = hex4 (occupant_rank oc) @ [1] @ concat (map lower (oc_nick oc))"

record member_view =
  mv_nick :: ustring
  mv_prefix :: "ustring option"
  mv_away :: bool
  mv_sort_key :: ustring

definition occupant_view :: "(uchar \<Rightarrow> ustring) \<Rightarrow> occupant \<Rightarrow> member_view" where
  "occupant_view lower oc =
     \<lparr>mv_nick = oc_nick oc, mv_prefix = map_option (\<lambda>p. [p]) (occupant_prefix oc), mv_away = oc_away oc,
      mv_sort_key = occupant_sort_key lower oc\<rparr>"

section \<open>Rooms\<close>

record xroom =
  xr_jid :: ustring
  xr_nick :: ustring
  xr_joined :: bool
  xr_leaving :: bool
  xr_nick_attempts :: nat
  xr_topic :: "ustring option"
  xr_renaming :: "(ustring, ustring) hmap"
  xr_last_id :: "ustring option"
  xr_recent :: "ustring list"
  xr_recent_set :: "ustring list"
  xr_occupants :: "(ustring, occupant) hmap"

definition RECENT_IDS :: nat where
  "RECENT_IDS = 512"

definition new_room :: "ustring \<Rightarrow> ustring \<Rightarrow> xroom" where
  "new_room jid nick =
     \<lparr>xr_jid = jid, xr_nick = nick, xr_joined = False, xr_leaving = False, xr_nick_attempts = 0, xr_topic = None,
      xr_renaming = [], xr_last_id = None, xr_recent = [], xr_recent_set = [], xr_occupants = []\<rparr>"

definition room_name :: "xroom \<Rightarrow> ustring" where
  "room_name r = xr_jid r"

definition room_is_self :: "xroom \<Rightarrow> ustring \<Rightarrow> bool" where
  "room_is_self r nick \<longleftrightarrow> nick = xr_nick r"

definition remember :: "ustring \<Rightarrow> xroom \<Rightarrow> bool \<times> xroom" where
  "remember i r =
     (if i \<in> set (xr_recent_set r) then (False, r)
      else
        let r = (if RECENT_IDS \<le> length (xr_recent r)
                 then case xr_recent r of
                     old # rest \<Rightarrow> r\<lparr>xr_recent := rest, xr_recent_set := hs_remove old (xr_recent_set r)\<rparr>
                   | [] \<Rightarrow> r
                 else r)
        in (True, r\<lparr>xr_recent := xr_recent r @ [i], xr_recent_set := hs_insert i (xr_recent_set r)\<rparr>))"

definition room_occupant :: "xroom \<Rightarrow> ustring \<Rightarrow> occupant option" where
  "room_occupant r nick = hm_get (xr_occupants r) nick"

definition upsert :: "occupant \<Rightarrow> xroom \<Rightarrow> occupant option \<times> xroom" where
  "upsert oc r =
     (hm_get (xr_occupants r) (oc_nick oc), r\<lparr>xr_occupants := hm_insert (oc_nick oc) oc (xr_occupants r)\<rparr>)"

definition room_remove :: "ustring \<Rightarrow> xroom \<Rightarrow> occupant option \<times> xroom" where
  "room_remove nick r =
     (hm_get (xr_occupants r) nick, r\<lparr>xr_occupants := hm_remove nick (xr_occupants r)\<rparr>)"

definition clear_occupants :: "xroom \<Rightarrow> xroom" where
  "clear_occupants r = r\<lparr>xr_occupants := []\<rparr>"

text \<open>A \<open>BTreeMap\<close> is iterated in the order of its keys; the sort that follows is stable.\<close>

definition room_members :: "(uchar \<Rightarrow> ustring) \<Rightarrow> xroom \<Rightarrow> member_view list" where
  "room_members lower r =
     sort_key mv_sort_key (map (\<lambda>(_, oc). occupant_view lower oc) (sort_key fst (xr_occupants r)))"

section \<open>Lemmas\<close>

lemma length_trim: "length (trim s) \<le> length s"
proof -
  have "length (trim s) \<le> length (trim_start s)"
    unfolding trim_def trim_end_def by (rule prefix_length_le [OF trim_end_matches_prefix])
  also have "\<dots> \<le> length s"
    by (simp add: trim_start_def trim_start_matches_def length_dropWhile_le)
  finally show ?thesis .
qed

lemma clean_name_ok:
  "length (clean_name s) \<le> MAX_NICK" "c \<in> set (clean_name s) \<Longrightarrow> \<not> is_control c \<and> \<not> is_layout_control c"
  unfolding clean_name_def by (auto dest: in_set_takeD)

lemma clean_line_ok:
  "length (clean_line s n) \<le> n" "c \<in> set (clean_line s n) \<Longrightarrow> \<not> is_control c \<and> \<not> is_layout_control c"
proof -
  show "length (clean_line s n) \<le> n"
    unfolding clean_line_def by (rule order_trans [OF length_trim]) simp
  assume c: "c \<in> set (clean_line s n)"
  have "set (clean_line s n) \<subseteq> set (filter (\<lambda>c. \<not> is_layout_control c)
      (map (\<lambda>c. if is_control c then ch (CHR '' '') else c) s))"
    unfolding clean_line_def by (rule subset_trans [OF trim_set set_take_subset])
  with c show "\<not> is_control c \<and> \<not> is_layout_control c"
    by (auto simp: is_control_def dest!: subsetD split: if_splits)
qed

text \<open>The queue and the set hold the same ids, each once, and at most as many as are remembered.\<close>

definition recent_ok :: "xroom \<Rightarrow> bool" where
  "recent_ok r \<longleftrightarrow> set (xr_recent_set r) = set (xr_recent r) \<and> distinct (xr_recent_set r)
     \<and> distinct (xr_recent r) \<and> length (xr_recent r) \<le> RECENT_IDS"

text \<open>The ids that are shown when a sequence of them arrives.\<close>

fun show_all :: "ustring list \<Rightarrow> xroom \<Rightarrow> ustring list \<times> xroom" where
  "show_all [] r = ([], r)"
| "show_all (i # is) r =
     (let (fresh, r1) = remember i r; (shown, r2) = show_all is r1
      in (if fresh then i # shown else shown, r2))"

definition last_ids :: "ustring list \<Rightarrow> ustring list" where
  "last_ids shown = drop (length shown - RECENT_IDS) shown"

lemma last_ids_snoc:
  "last_ids (xs @ [x]) = (if RECENT_IDS \<le> length (last_ids xs) then tl (last_ids xs) else last_ids xs) @ [x]"
proof (cases "RECENT_IDS \<le> length xs")
  case True
  then have "length (last_ids xs) = RECENT_IDS" by (simp add: last_ids_def)
  moreover have "tl (last_ids xs) = drop (Suc (length xs) - RECENT_IDS) xs"
    using True by (simp add: last_ids_def tl_drop drop_Suc Suc_diff_le)
  ultimately show ?thesis using True by (simp add: last_ids_def RECENT_IDS_def)
next
  case False
  then show ?thesis by (simp add: last_ids_def)
qed

lemma RECENT_IDS_pos: "0 < RECENT_IDS"
  by (simp add: RECENT_IDS_def)

lemma remember_fresh:
  assumes "i \<notin> set (xr_recent_set r)"
  shows "remember i r =
    (True, r\<lparr>xr_recent := (if RECENT_IDS \<le> length (xr_recent r) then tl (xr_recent r) else xr_recent r) @ [i],
             xr_recent_set := hs_insert i
               (if RECENT_IDS \<le> length (xr_recent r) then hs_remove (hd (xr_recent r)) (xr_recent_set r)
                else xr_recent_set r)\<rparr>)"
proof (cases "RECENT_IDS \<le> length (xr_recent r)")
  case True
  then obtain x xs where "xr_recent r = x # xs" using RECENT_IDS_pos by (cases "xr_recent r") auto
  with True assms show ?thesis by (simp add: remember_def)
qed (use assms in \<open>simp add: remember_def\<close>)

lemma remember_ok:
  assumes ok: "recent_ok r" and q: "xr_recent r = last_ids before" and rem: "remember i r = (fresh, r')"
  shows "fresh \<longleftrightarrow> i \<notin> set (last_ids before)"
    and "recent_ok r'" and "xr_recent r' = last_ids (if fresh then before @ [i] else before)"
proof -
  have ss: "set (xr_recent_set r) = set (xr_recent r)" "distinct (xr_recent_set r)" "distinct (xr_recent r)"
    "length (xr_recent r) \<le> RECENT_IDS"
    using ok by (auto simp: recent_ok_def)
  have "(fresh \<longleftrightarrow> i \<notin> set (last_ids before)) \<and> recent_ok r'
    \<and> xr_recent r' = last_ids (if fresh then before @ [i] else before)"
  proof (cases "i \<in> set (xr_recent_set r)")
    case True
    then have "fresh = False" "r' = r" using rem by (simp_all add: remember_def)
    with True ok q ss(1) show ?thesis by simp
  next
    case False
    let ?full = "RECENT_IDS \<le> length (xr_recent r)"
    let ?q = "if ?full then tl (xr_recent r) else xr_recent r"
    let ?s = "if ?full then hs_remove (hd (xr_recent r)) (xr_recent_set r) else xr_recent_set r"
    have r': "fresh" "r' = r\<lparr>xr_recent := ?q @ [i], xr_recent_set := hs_insert i ?s\<rparr>"
      using rem unfolding remember_fresh [OF False] by simp_all
    have "set ?s = set ?q \<and> distinct ?s \<and> distinct ?q \<and> i \<notin> set ?q \<and> length ?q < RECENT_IDS"
    proof (cases ?full)
      case True
      then obtain x xs where "xr_recent r = x # xs" using RECENT_IDS_pos by (cases "xr_recent r") auto
      with True ss False show ?thesis by (auto simp: distinct_removeAll)
    qed (use ss False in auto)
    then have "recent_ok r'" unfolding r'(2) recent_ok_def by auto
    moreover have "xr_recent r' = last_ids (before @ [i])" unfolding r'(2) last_ids_snoc q by simp
    ultimately show ?thesis using r'(1) False ss(1) q by simp
  qed
  then show "fresh \<longleftrightarrow> i \<notin> set (last_ids before)"
    "recent_ok r'" "xr_recent r' = last_ids (if fresh then before @ [i] else before)" by blast+
qed

lemma show_all_ok:
  assumes "recent_ok r" and "xr_recent r = last_ids before" and "show_all is r = (shown, r')"
  shows "recent_ok r' \<and> xr_recent r' = last_ids (before @ shown)"
  using assms
proof (induction "is" arbitrary: r before shown r')
  case (Cons i "is")
  obtain fresh r1 where 1: "remember i r = (fresh, r1)" by force
  obtain shown1 r2 where 2: "show_all is r1 = (shown1, r2)" by force
  note ok = remember_ok [OF Cons.prems(1, 2) 1]
  from Cons.IH [OF ok(2, 3) 2] Cons.prems(3) 1 2 show ?case by (auto split: if_splits)
qed simp

section \<open>Properties\<close>

text \<open>
  C23: After any sequence of arriving message ids, the next one is refused exactly if it is among the
  last 512 that were shown; the queue and the set behind it hold those 512 and nothing else.
\<close>

theorem shown_once:
  "fst (remember i (snd (show_all is (new_room jid nick))))
     = (i \<notin> set (last_ids (fst (show_all is (new_room jid nick)))))
   \<and> xr_recent (snd (show_all is (new_room jid nick))) = last_ids (fst (show_all is (new_room jid nick)))
   \<and> set (xr_recent_set (snd (show_all is (new_room jid nick))))
       = set (last_ids (fst (show_all is (new_room jid nick))))"
proof -
  obtain shown r where s: "show_all is (new_room jid nick) = (shown, r)" by force
  have "recent_ok (new_room jid nick)" "xr_recent (new_room jid nick) = last_ids []"
    by (simp_all add: recent_ok_def new_room_def last_ids_def)
  from show_all_ok [OF this s] have r: "recent_ok r" "xr_recent r = last_ids shown" by simp_all
  obtain fresh r' where "remember i r = (fresh, r')" by force
  with remember_ok(1) [OF r this] r show ?thesis by (simp add: s recent_ok_def)
qed

end
