(* ===== verification/Contacts.thy ===== *)
theory Contacts
  imports Xmpp_Room "HOL-Library.Product_Lexorder"
begin

text \<open>
  The contact list (\<^verbatim>\<open>core/ddirc-core/src/xmpp/contacts.rs\<close>): the roster, what each contact's
  devices have said, and the people waiting for an answer. A bare address is its string. Roster items and
  presences are the XMPP library's data, of which only what is read is kept. The specification is a
  screen that does nothing but apply the events it is given.
\<close>

section \<open>Types\<close>

definition MAX_CONTACTS :: nat where
  "MAX_CONTACTS = 2000"

definition MAX_REQUESTS :: nat where
  "MAX_REQUESTS = 100"

definition MAX_RESOURCES :: nat where
  "MAX_RESOURCES = 16"

definition MAX_STATUS :: nat where
  "MAX_STATUS = 200"

datatype availability = Offline | Available | Away | Dnd | ExtendedAway

datatype subscription = SubNone | SubTo | SubFrom | SubBoth

datatype roster_subscription = RosterNone | RosterTo | RosterFrom | RosterBoth | RosterRemove

datatype presence_show = ShowAway | ShowDnd | ShowXa | ShowChat

datatype presence_type = PresenceNone | PresenceUnavailable | PresenceOther

record roster_item =
  ri_jid :: ustring
  ri_name :: "ustring option"
  ri_subscription :: roster_subscription
  ri_ask :: bool

record presence =
  pr_type :: presence_type
  pr_show :: "presence_show option"
  pr_statuses :: "ustring list"
  pr_priority :: int

record seen =
  sn_availability :: availability
  sn_status :: ustring
  sn_priority :: int

record contact =
  ct_name :: "ustring option"
  ct_subscription :: subscription
  ct_asked :: bool
  ct_resources :: "(ustring, seen) hmap"

record contacts =
  cs_items :: "(ustring, contact) hmap"
  cs_requests :: "ustring list"

record contact_view =
  cv_jid :: ustring
  cv_name :: "ustring option"
  cv_subscription :: subscription
  cv_asked :: bool
  cv_availability :: availability
  cv_status :: ustring

datatype contact_event = ContactChanged contact_view | ContactRemoved ustring

section \<open>Views\<close>

primrec availability_rank :: "availability \<Rightarrow> nat" where
  "availability_rank Available = 4"
| "availability_rank Away = 3"
| "availability_rank ExtendedAway = 2"
| "availability_rank Dnd = 1"
| "availability_rank Offline = 0"

text \<open>\<open>Iterator::max_by_key\<close>: the last of the greatest.\<close>

definition max_by_key :: "('a \<Rightarrow> 'b::linorder) \<Rightarrow> 'a list \<Rightarrow> 'a option" where
  "max_by_key f xs =
     foldl (\<lambda>best x. case best of None \<Rightarrow> Some x | Some b \<Rightarrow> if f b \<le> f x then Some x else Some b) None xs"

definition contains_contact :: "contacts \<Rightarrow> ustring \<Rightarrow> bool" where
  "contains_contact cs jid \<longleftrightarrow> hm_has (cs_items cs) jid"

definition contacts_len :: "contacts \<Rightarrow> nat" where
  "contacts_len cs = length (cs_items cs)"

definition contacts_is_empty :: "contacts \<Rightarrow> bool" where
  "contacts_is_empty cs \<longleftrightarrow> cs_items cs = []"

definition is_full :: "contacts \<Rightarrow> bool" where
  "is_full cs \<longleftrightarrow> MAX_CONTACTS \<le> length (cs_items cs)"

definition render :: "ustring \<Rightarrow> contact \<Rightarrow> contact_view" where
  "render jid c =
     (let best = max_by_key (\<lambda>s. (sn_priority s, availability_rank (sn_availability s))) (hm_values (ct_resources c))
      in \<lparr>cv_jid = jid, cv_name = ct_name c, cv_subscription = ct_subscription c, cv_asked = ct_asked c,
          cv_availability = (case best of None \<Rightarrow> Offline | Some s \<Rightarrow> sn_availability s),
          cv_status = (case best of None \<Rightarrow> [] | Some s \<Rightarrow> sn_status s)\<rparr>)"

definition view :: "contacts \<Rightarrow> ustring \<Rightarrow> contact_view option" where
  "view cs jid = map_option (render jid) (hm_get (cs_items cs) jid)"

section \<open>Roster\<close>

definition new_contacts :: contacts where
  "new_contacts = \<lparr>cs_items = [], cs_requests = []\<rparr>"

definition blank_contact :: contact where
  "blank_contact = \<lparr>ct_name = None, ct_subscription = SubNone, ct_asked = False, ct_resources = []\<rparr>"

definition roster_sub :: "roster_subscription \<Rightarrow> subscription" where
  "roster_sub s = (case s of RosterTo \<Rightarrow> SubTo | RosterFrom \<Rightarrow> SubFrom | RosterBoth \<Rightarrow> SubBoth | _ \<Rightarrow> SubNone)"

text \<open>The part of the loop body that puts an item on the list.\<close>

definition put_item :: "roster_item \<Rightarrow> contacts \<Rightarrow> contacts" where
  "put_item item cs =
     (let name = (case ri_name item of
             None \<Rightarrow> None
           | Some n \<Rightarrow> if clean_name n = [] then None else Some (clean_name n));
          sub = roster_sub (ri_subscription item);
          c = (case hm_get (cs_items cs) (ri_jid item) of Some c \<Rightarrow> c | None \<Rightarrow> blank_contact);
          cs = cs\<lparr>cs_items := hm_insert (ri_jid item)
                 (c\<lparr>ct_name := name, ct_subscription := sub, ct_asked := ri_ask item\<rparr>) (cs_items cs)\<rparr>
      in if sub \<in> {SubFrom, SubBoth}
         then cs\<lparr>cs_requests := filter (\<lambda>r. r \<noteq> ri_jid item) (cs_requests cs)\<rparr> else cs)"

definition roster_item_step :: "ustring \<Rightarrow> roster_item \<Rightarrow> contacts \<Rightarrow> contact_event list \<times> contacts" where
  "roster_item_step own item cs =
     (if ri_jid item = own then ([], cs)
      else if ri_subscription item = RosterRemove then
        (if hm_has (cs_items cs) (ri_jid item) then [ContactRemoved (ri_jid item)] else [],
         cs\<lparr>cs_items := hm_remove (ri_jid item) (cs_items cs)\<rparr>)
      else if \<not> hm_has (cs_items cs) (ri_jid item) \<and> is_full cs then ([], cs)
      else
        let cs = put_item item cs
        in (case view cs (ri_jid item) of None \<Rightarrow> [] | Some v \<Rightarrow> [ContactChanged v], cs))"

fun roster_loop :: "ustring \<Rightarrow> roster_item list \<Rightarrow> contacts \<Rightarrow> contact_event list \<times> contacts" where
  "roster_loop own [] cs = ([], cs)"
| "roster_loop own (item # items) cs =
     (let (es, cs) = roster_item_step own item cs;
          (es', cs) = roster_loop own items cs
      in (es @ es', cs))"

definition mentioned :: "ustring \<Rightarrow> roster_item list \<Rightarrow> ustring list" where
  "mentioned own items = map ri_jid (filter (\<lambda>item. ri_jid item \<noteq> own) items)"

fun drop_all :: "ustring list \<Rightarrow> contacts \<Rightarrow> contact_event list \<times> contacts" where
  "drop_all [] cs = ([], cs)"
| "drop_all (jid # jids) cs =
     (let (es, cs) = drop_all jids (cs\<lparr>cs_items := hm_remove jid (cs_items cs)\<rparr>)
      in (ContactRemoved jid # es, cs))"

definition apply_roster ::
  "roster_item list \<Rightarrow> ustring \<Rightarrow> bool \<Rightarrow> contacts \<Rightarrow> contact_event list \<times> contacts" where
  "apply_roster items own full cs =
     (let (es, cs) = roster_loop own items cs
      in if full then
           let gone = filter (\<lambda>jid. jid \<notin> set (mentioned own items)) (hm_keys (cs_items cs));
               (es', cs) = drop_all gone cs
           in (es @ es', cs)
         else (es, cs))"

section \<open>Presence and requests\<close>

definition seen_of :: "presence \<Rightarrow> seen" where
  "seen_of p =
     \<lparr>sn_availability = (case pr_show p of
          Some ShowAway \<Rightarrow> Away | Some ShowDnd \<Rightarrow> Dnd | Some ShowXa \<Rightarrow> ExtendedAway | _ \<Rightarrow> Available),
      sn_status = (case pr_statuses p of [] \<Rightarrow> [] | s # _ \<Rightarrow> clean_line s MAX_STATUS),
      sn_priority = pr_priority p\<rparr>"

definition apply_presence ::
  "ustring \<Rightarrow> ustring option \<Rightarrow> presence \<Rightarrow> contacts \<Rightarrow> contact_event option \<times> contacts" where
  "apply_presence bare res p cs =
     (case (res, view cs bare, hm_get (cs_items cs) bare) of
        (Some resource, Some before, Some c) \<Rightarrow>
          let changed = (case pr_type p of
                PresenceUnavailable \<Rightarrow> Some (c\<lparr>ct_resources := hm_remove resource (ct_resources c)\<rparr>)
              | PresenceNone \<Rightarrow>
                  if \<not> hm_has (ct_resources c) resource \<and> MAX_RESOURCES \<le> length (ct_resources c) then None
                  else Some (c\<lparr>ct_resources := hm_insert resource (seen_of p) (ct_resources c)\<rparr>)
              | PresenceOther \<Rightarrow> None)
          in (case changed of
                None \<Rightarrow> (None, cs)
              | Some c \<Rightarrow>
                  (if render bare c \<noteq> before then Some (ContactChanged (render bare c)) else None,
                   cs\<lparr>cs_items := hm_insert bare c (cs_items cs)\<rparr>))
      | _ \<Rightarrow> (None, cs))"

definition signed_out :: "contact \<Rightarrow> contact" where
  "signed_out c = c\<lparr>ct_resources := []\<rparr>"

definition forget_presence :: "contacts \<Rightarrow> contact_event list \<times> contacts" where
  "forget_presence cs =
     (map (\<lambda>(jid, c). ContactChanged (render jid (signed_out c)))
        (filter (\<lambda>(jid, c). ct_resources c \<noteq> []) (cs_items cs)),
      cs\<lparr>cs_items := map (\<lambda>(jid, c). (jid, if ct_resources c \<noteq> [] then signed_out c else c)) (cs_items cs)\<rparr>)"

definition add_request :: "ustring \<Rightarrow> contacts \<Rightarrow> bool \<times> contacts" where
  "add_request jid cs =
     (if jid \<in> set (cs_requests cs) \<or> MAX_REQUESTS \<le> length (cs_requests cs) then (False, cs)
      else (True, cs\<lparr>cs_requests := cs_requests cs @ [jid]\<rparr>))"

definition take_request :: "ustring \<Rightarrow> contacts \<Rightarrow> bool \<times> contacts" where
  "take_request jid cs =
     (let left = filter (\<lambda>r. r \<noteq> jid) (cs_requests cs)
      in (length left \<noteq> length (cs_requests cs), cs\<lparr>cs_requests := left\<rparr>))"

definition clear_requests :: "contacts \<Rightarrow> ustring list \<times> contacts" where
  "clear_requests cs = (cs_requests cs, cs\<lparr>cs_requests := []\<rparr>)"

definition requests :: "contacts \<Rightarrow> ustring list" where
  "requests cs = cs_requests cs"

section \<open>The screen\<close>

type_synonym screen = "ustring \<Rightarrow> contact_view option"

primrec show_event :: "contact_event \<Rightarrow> screen \<Rightarrow> screen" where
  "show_event (ContactChanged v) s = s(cv_jid v := Some v)"
| "show_event (ContactRemoved jid) s = s(jid := None)"

definition screen_after :: "contact_event list \<Rightarrow> screen \<Rightarrow> screen" where
  "screen_after es s = fold show_event es s"

lemma screen_after_simps [simp]:
  "screen_after [] s = s" "screen_after (e # es) s = screen_after es (show_event e s)"
  "screen_after (es @ es') s = screen_after es' (screen_after es s)"
  by (simp_all add: screen_after_def)

definition contact_ok :: "contact \<Rightarrow> bool" where
  "contact_ok c \<longleftrightarrow> hm_ok (ct_resources c) \<and> length (ct_resources c) \<le> MAX_RESOURCES
     \<and> hm_all (\<lambda>s. length (sn_status s) \<le> MAX_STATUS) (ct_resources c)
     \<and> (case ct_name c of None \<Rightarrow> True | Some n \<Rightarrow> n \<noteq> [] \<and> length n \<le> MAX_NICK)"

definition contacts_ok :: "ustring \<Rightarrow> contacts \<Rightarrow> bool" where
  "contacts_ok own cs \<longleftrightarrow> hm_ok (cs_items cs) \<and> length (cs_items cs) \<le> MAX_CONTACTS
     \<and> hm_all contact_ok (cs_items cs) \<and> hm_get (cs_items cs) own = None
     \<and> distinct (cs_requests cs) \<and> length (cs_requests cs) \<le> MAX_REQUESTS"

lemma view_insert: "view (cs\<lparr>cs_items := hm_insert j c (cs_items cs)\<rparr>) = (view cs)(j := Some (render j c))"
  by (auto simp: view_def map_simps fun_eq_iff)

lemma view_remove: "view (cs\<lparr>cs_items := hm_remove j (cs_items cs)\<rparr>) = (view cs)(j := None)"
  by (auto simp: view_def map_simps fun_eq_iff)

lemma view_requests [simp]: "view (cs\<lparr>cs_requests := rs\<rparr>) = view cs"
  by (simp add: view_def fun_eq_iff)

lemma cv_jid_render [simp]: "cv_jid (render j c) = j"
  by (simp add: render_def Let_def)

lemma contacts_ok_get: "contacts_ok own cs \<Longrightarrow> hm_get (cs_items cs) j = Some c \<Longrightarrow> contact_ok c"
  unfolding contacts_ok_def using hm_all_get by metis

lemma contacts_ok_remove: "contacts_ok own cs \<Longrightarrow> contacts_ok own (cs\<lparr>cs_items := hm_remove j (cs_items cs)\<rparr>)"
  by (auto simp: contacts_ok_def map_simps intro: hm_all_remove hm.bounded_del)

lemma contacts_ok_insert:
  assumes "contacts_ok own cs" and "contact_ok c" and "j \<noteq> own"
    and "hm_has (cs_items cs) j \<or> \<not> is_full cs"
  shows "contacts_ok own (cs\<lparr>cs_items := hm_insert j c (cs_items cs)\<rparr>)"
  using assms by (auto simp: contacts_ok_def is_full_def map_simps hm_all_insert hm.bounded_ins not_le)

lemma contacts_ok_requests:
  "contacts_ok own cs \<Longrightarrow> contacts_ok own (cs\<lparr>cs_requests := filter P (cs_requests cs)\<rparr>)"
  by (auto simp: contacts_ok_def intro: order_trans [OF length_filter_le])

text \<open>The names and devices of an item that is put on the list.\<close>

lemma put_item_ok:
  assumes ok: "contacts_ok own cs" and "ri_jid item \<noteq> own"
    and room: "hm_has (cs_items cs) (ri_jid item) \<or> \<not> is_full cs"
  shows "contacts_ok own (put_item item cs)"
    and "\<exists>c. view (put_item item cs) = (view cs)(ri_jid item := Some (render (ri_jid item) c))"
proof -
  define c where "c = (case hm_get (cs_items cs) (ri_jid item) of Some c \<Rightarrow> c | None \<Rightarrow> blank_contact)"
  define name where "name = (case ri_name item of
      None \<Rightarrow> None | Some n \<Rightarrow> if clean_name n = [] then None else Some (clean_name n))"
  define c' where "c' = c\<lparr>ct_name := name, ct_subscription := roster_sub (ri_subscription item),
    ct_asked := ri_ask item\<rparr>"
  let ?cs = "cs\<lparr>cs_items := hm_insert (ri_jid item) c' (cs_items cs)\<rparr>"
  have "contact_ok c"
  proof (cases "hm_get (cs_items cs) (ri_jid item)")
    case None
    then show ?thesis by (simp add: c_def contact_ok_def blank_contact_def)
  next
    case (Some d)
    with contacts_ok_get [OF ok] show ?thesis by (simp add: c_def)
  qed
  moreover have "case name of None \<Rightarrow> True | Some n \<Rightarrow> n \<noteq> [] \<and> length n \<le> MAX_NICK"
    using clean_name_ok(1) by (auto simp: name_def split: option.splits)
  ultimately have "contact_ok c'" by (simp add: contact_ok_def c'_def)
  from contacts_ok_insert [OF ok this assms(2) room] have ins: "contacts_ok own ?cs" .
  have p: "put_item item cs = (if roster_sub (ri_subscription item) \<in> {SubFrom, SubBoth}
      then ?cs\<lparr>cs_requests := filter (\<lambda>r. r \<noteq> ri_jid item) (cs_requests ?cs)\<rparr> else ?cs)"
    unfolding put_item_def Let_def c_def [symmetric] name_def [symmetric] c'_def [symmetric] ..
  show "contacts_ok own (put_item item cs)"
    unfolding p using ins contacts_ok_requests [OF ins] by simp
  show "\<exists>c. view (put_item item cs) = (view cs)(ri_jid item := Some (render (ri_jid item) c))"
    unfolding p by (auto simp: view_insert)
qed

lemma roster_item_step_ok:
  assumes ok: "contacts_ok own cs" and step: "roster_item_step own item cs = (es, cs')"
  shows "contacts_ok own cs' \<and> screen_after es (view cs) = view cs'"
proof -
  let ?j = "ri_jid item"
  consider (own) "?j = own" | (gone) "?j \<noteq> own" "ri_subscription item = RosterRemove"
    | (full) "?j \<noteq> own" "ri_subscription item \<noteq> RosterRemove" "\<not> hm_has (cs_items cs) ?j \<and> is_full cs"
    | (put) "?j \<noteq> own" "ri_subscription item \<noteq> RosterRemove" "hm_has (cs_items cs) ?j \<or> \<not> is_full cs"
    by blast
  then show ?thesis
  proof cases
    case gone
    with step have e: "es = (if hm_has (cs_items cs) ?j then [ContactRemoved ?j] else [])"
      and c: "cs' = cs\<lparr>cs_items := hm_remove ?j (cs_items cs)\<rparr>" by (auto simp: roster_item_step_def)
    have "view cs ?j = None" if "\<not> hm_has (cs_items cs) ?j" using that by (simp add: view_def)
    then show ?thesis
      using contacts_ok_remove [OF ok] by (auto simp: e c view_remove)
  next
    case put
    then have s: "es = (case view (put_item item cs) ?j of None \<Rightarrow> [] | Some v \<Rightarrow> [ContactChanged v])"
      and c: "cs' = put_item item cs" using step by (auto simp: roster_item_step_def Let_def)
    obtain k where "view (put_item item cs) = (view cs)(?j := Some (render ?j k))"
      using put_item_ok(2) [OF ok put(1, 3)] by blast
    then show ?thesis using put_item_ok(1) [OF ok put(1, 3)] by (simp add: s c)
  qed (use ok step in \<open>auto simp: roster_item_step_def\<close>)
qed

lemma roster_loop_ok:
  assumes "contacts_ok own cs" and "roster_loop own items cs = (es, cs')"
  shows "contacts_ok own cs' \<and> screen_after es (view cs) = view cs'"
  using assms
proof (induction items arbitrary: cs es)
  case (Cons item items)
  obtain e1 c1 where 1: "roster_item_step own item cs = (e1, c1)" by force
  obtain e2 c2 where 2: "roster_loop own items c1 = (e2, c2)" by force
  note ok = roster_item_step_ok [OF Cons.prems(1) 1]
  from Cons.prems(2) 1 2 have "roster_loop own items c1 = (e2, cs')" "es = e1 @ e2" by simp_all
  with Cons.IH [of c1 e2] ok show ?case by simp
qed simp

lemma drop_all_ok:
  assumes "contacts_ok own cs" and "drop_all jids cs = (es, cs')"
  shows "contacts_ok own cs' \<and> screen_after es (view cs) = view cs'"
  using assms
proof (induction jids arbitrary: cs es)
  case (Cons j jids)
  let ?c = "cs\<lparr>cs_items := hm_remove j (cs_items cs)\<rparr>"
  obtain e2 where 2: "drop_all jids ?c = (e2, cs')" "es = ContactRemoved j # e2"
    using Cons.prems(2) by (auto split: prod.splits)
  from Cons.IH [OF contacts_ok_remove [OF Cons.prems(1)] 2(1)] 2(2) show ?case
    unfolding view_remove by (simp add: fun_upd_def)
qed simp

lemma apply_roster_ok:
  assumes "contacts_ok own cs" and "apply_roster items own full cs = (es, cs')"
  shows "contacts_ok own cs' \<and> screen_after es (view cs) = view cs'"
proof -
  obtain e1 c1 where 1: "roster_loop own items cs = (e1, c1)" by force
  let ?gone = "filter (\<lambda>jid. jid \<notin> set (mentioned own items)) (hm_keys (cs_items c1))"
  obtain e2 c2 where 2: "drop_all ?gone c1 = (e2, c2)" by force
  have ok1: "contacts_ok own c1 \<and> screen_after e1 (view cs) = view c1"
    by (rule roster_loop_ok [OF assms(1) 1])
  then have ok2: "contacts_ok own c2 \<and> screen_after e2 (view c1) = view c2"
    using drop_all_ok 2 by blast
  show ?thesis
    using assms(2) ok1 ok2 by (cases full) (auto simp: apply_roster_def 1 2)
qed

lemma apply_presence_ok:
  assumes ok: "contacts_ok own cs" and step: "apply_presence bare res p cs = (e, cs')"
  shows "contacts_ok own cs' \<and> screen_after (case e of None \<Rightarrow> [] | Some e \<Rightarrow> [e]) (view cs) = view cs'"
proof (cases "\<exists>resource c. res = Some resource \<and> hm_get (cs_items cs) bare = Some c")
  case False
  then have "e = None" "cs' = cs" using step
    by (auto simp: apply_presence_def view_def split: option.splits)
  with ok show ?thesis by simp
next
  case True
  then obtain resource c where r: "res = Some resource" and c: "hm_get (cs_items cs) bare = Some c" by blast
  have v: "view cs bare = Some (render bare c)" by (simp add: view_def c)
  have cok: "contact_ok c" by (rule contacts_ok_get [OF ok c])
  define changed where "changed = (case pr_type p of
      PresenceUnavailable \<Rightarrow> Some (c\<lparr>ct_resources := hm_remove resource (ct_resources c)\<rparr>)
    | PresenceNone \<Rightarrow>
        if \<not> hm_has (ct_resources c) resource \<and> MAX_RESOURCES \<le> length (ct_resources c) then None
        else Some (c\<lparr>ct_resources := hm_insert resource (seen_of p) (ct_resources c)\<rparr>)
    | PresenceOther \<Rightarrow> None)"
  have ap: "apply_presence bare res p cs = (case changed of
      None \<Rightarrow> (None, cs)
    | Some c' \<Rightarrow>
        (if render bare c' \<noteq> render bare c then Some (ContactChanged (render bare c')) else None,
         cs\<lparr>cs_items := hm_insert bare c' (cs_items cs)\<rparr>))"
    unfolding apply_presence_def r c v changed_def by simp
  show ?thesis
  proof (cases changed)
    case None
    with step ap ok show ?thesis by simp
  next
    case (Some c')
    have "length (sn_status (seen_of p)) \<le> MAX_STATUS"
      using clean_line_ok(1) by (auto simp: seen_of_def split: list.splits)
    with Some cok have "contact_ok c'"
      by (auto simp: changed_def contact_ok_def map_simps hm_all_insert hm_all_remove hm.bounded_ins
          hm.bounded_del not_le split: presence_type.splits if_splits)
    moreover have "bare \<noteq> own" using ok c by (auto simp: contacts_ok_def)
    ultimately have "contacts_ok own cs'"
      using contacts_ok_insert [OF ok, of c' bare] step ap Some c by simp
    moreover have "screen_after (case e of None \<Rightarrow> [] | Some e \<Rightarrow> [e]) (view cs) = view cs'"
      using step ap Some v by (auto simp: view_insert fun_eq_iff)
    ultimately show ?thesis by simp
  qed
qed

lemma map_of_filter_value:
  "distinct (map fst m) \<Longrightarrow> map_of (filter (\<lambda>(k, v). P v) m) k =
     (case map_of m k of None \<Rightarrow> None | Some v \<Rightarrow> if P v then Some v else None)"
proof (induction m)
  case (Cons x m)
  obtain k' v where x: "x = (k', v)" by force
  show ?case
  proof (cases "k = k'")
    case True
    with Cons.prems x have "map_of m k = None" by (auto simp: map_of_eq_None_iff)
    with Cons x True show ?thesis by simp
  next
    case False
    with Cons x show ?thesis by simp
  qed
qed simp

lemma screen_changed:
  "distinct (map fst xs) \<Longrightarrow>
   screen_after (map (\<lambda>(j, c). ContactChanged (render j (g c))) xs) s =
     (\<lambda>j. case map_of xs j of None \<Rightarrow> s j | Some c \<Rightarrow> Some (render j (g c)))"
proof (induction xs arbitrary: s)
  case (Cons x xs)
  obtain j c where x: "x = (j, c)" by force
  with Cons.prems have "map_of xs j = None" by (auto simp: map_of_eq_None_iff)
  with Cons x show ?case by (auto simp: fun_eq_iff split: option.splits)
qed simp

lemma forget_presence_ok:
  assumes ok: "contacts_ok own cs" and step: "forget_presence cs = (es, cs')"
  shows "contacts_ok own cs' \<and> screen_after es (view cs) = view cs'"
proof -
  let ?g = "\<lambda>c. if ct_resources c \<noteq> [] then signed_out c else c"
  let ?on = "filter (\<lambda>(jid, c). ct_resources c \<noteq> []) (cs_items cs)"
  have d: "distinct (map fst (cs_items cs))" using ok by (simp add: contacts_ok_def)
  then have don: "distinct (map fst ?on)" by (simp add: distinct_map_filter)
  have c: "cs' = cs\<lparr>cs_items := map (\<lambda>(jid, c). (jid, ?g c)) (cs_items cs)\<rparr>"
    and e: "es = map (\<lambda>(j, c). ContactChanged (render j (signed_out c))) ?on"
    using step by (simp_all add: forget_presence_def)
  have "hm_all contact_ok (map (\<lambda>(jid, c). (jid, ?g c)) (cs_items cs))"
    by (rule hm_all_map) (use ok in \<open>auto simp: contacts_ok_def contact_ok_def signed_out_def\<close>)
  with ok have "contacts_ok own cs'"
    by (simp add: c contacts_ok_def keys_map_values map_of_map_values del: map_map)
  moreover note on = map_of_filter_value [OF d, of "\<lambda>c. ct_resources c \<noteq> []"]
  have "screen_after es (view cs) = view cs'"
    unfolding e screen_changed [OF don]
    by (auto simp: c view_def map_of_map_values on fun_eq_iff split: option.splits)
  ultimately show ?thesis ..
qed

section \<open>Any sequence of inputs\<close>

datatype contact_input =
    RosterAnswer "roster_item list"
  | RosterPush "roster_item list"
  | PresenceFrom ustring "ustring option" presence
  | SignedOut
  | RequestFrom ustring
  | RequestTaken ustring
  | RequestsCleared

primrec contacts_step :: "ustring \<Rightarrow> contacts \<Rightarrow> contact_input \<Rightarrow> contacts \<times> contact_event list" where
  "contacts_step own cs (RosterAnswer items) = (let (es, cs) = apply_roster items own True cs in (cs, es))"
| "contacts_step own cs (RosterPush items) = (let (es, cs) = apply_roster items own False cs in (cs, es))"
| "contacts_step own cs (PresenceFrom bare res p) =
     (let (e, cs) = apply_presence bare res p cs in (cs, case e of None \<Rightarrow> [] | Some e \<Rightarrow> [e]))"
| "contacts_step own cs SignedOut = (let (es, cs) = forget_presence cs in (cs, es))"
| "contacts_step own cs (RequestFrom jid) = (snd (add_request jid cs), [])"
| "contacts_step own cs (RequestTaken jid) = (snd (take_request jid cs), [])"
| "contacts_step own cs RequestsCleared = (snd (clear_requests cs), [])"

definition contacts_good :: "ustring \<Rightarrow> contacts \<Rightarrow> contact_event list \<Rightarrow> bool" where
  "contacts_good own cs h \<longleftrightarrow> contacts_ok own cs \<and> screen_after h (\<lambda>_. None) = view cs"

lemma requests_ok:
  assumes ok: "contacts_ok own cs"
  shows "contacts_ok own (snd (add_request jid cs)) \<and> view (snd (add_request jid cs)) = view cs"
    and "contacts_ok own (snd (take_request jid cs)) \<and> view (snd (take_request jid cs)) = view cs"
    and "contacts_ok own (snd (clear_requests cs)) \<and> view (snd (clear_requests cs)) = view cs"
proof -
  show "contacts_ok own (snd (add_request jid cs)) \<and> view (snd (add_request jid cs)) = view cs"
    using ok by (auto simp: add_request_def contacts_ok_def)
  show "contacts_ok own (snd (take_request jid cs)) \<and> view (snd (take_request jid cs)) = view cs"
    using contacts_ok_requests [OF ok] by (simp add: take_request_def Let_def)
  show "contacts_ok own (snd (clear_requests cs)) \<and> view (snd (clear_requests cs)) = view cs"
    using ok by (simp add: clear_requests_def contacts_ok_def)
qed

interpretation roster: history_machine "contacts_step own" "contacts_good own" for own
proof
  fix cs cs' :: contacts and h es i
  assume g: "contacts_good own cs h" and step: "contacts_step own cs i = (cs', es)"
  then have ok: "contacts_ok own cs" and sc: "screen_after h (\<lambda>_. None) = view cs"
    by (simp_all add: contacts_good_def)
  have "contacts_ok own cs' \<and> screen_after es (view cs) = view cs'"
  proof (cases i)
    case RosterAnswer
    with step apply_roster_ok [OF ok] show ?thesis by (auto split: prod.splits)
  next
    case RosterPush
    with step apply_roster_ok [OF ok] show ?thesis by (auto split: prod.splits)
  next
    case PresenceFrom
    with step apply_presence_ok [OF ok] show ?thesis by (auto split: prod.splits)
  next
    case SignedOut
    with step forget_presence_ok [OF ok] show ?thesis by (auto split: prod.splits)
  qed (use step requests_ok [OF ok] in auto)
  then show "contacts_good own cs' (h @ es)" by (simp add: contacts_good_def sc)
qed

section \<open>Properties\<close>

text \<open>
  C6: Whatever the server, the contacts and strangers send, a screen that only applies the
  events it is given, in order, shows exactly the contact list: every contact as it would be
  rendered, and nobody else. The list never holds the account itself, nor more than 2,000 people,
  16 devices for each or 100 open requests, nor a name or status beyond its bound.
\<close>

theorem screen_mirrors_contacts:
  "case drive (contacts_step own) new_contacts inputs of (cs, events) \<Rightarrow>
     screen_after events (\<lambda>_. None) = view cs \<and> contacts_ok own cs"
proof -
  obtain cs es where d: "drive (contacts_step own) new_contacts inputs = (cs, es)" by force
  have "contacts_good own new_contacts []"
    by (auto simp: contacts_good_def contacts_ok_def new_contacts_def view_def)
  from roster.drive_good [OF this d] d show ?thesis by (simp add: contacts_good_def)
qed

end
