(* ===== verification/Admin_Event.thy ===== *)
theory Admin_Event
  imports Rust_Str
begin

text \<open>
  Model of \<^verbatim>\<open>core/ddirc-server/src/admin.rs\<close>: the operator's commands, the events of the operator's
  log, and the escaping (\<open>clean\<close>) every string of an event goes through before it can reach a
  terminal.
\<close>

datatype admin_command =
    AcKick ustring ustring "ustring option"
  | AcDisconnect ustring "ustring option"
  | AcBan ustring "ustring option"
  | AcUnban ustring
  | AcSetTopic ustring ustring
  | AcCloseChannel ustring "ustring option"
  | AcOp ustring ustring
  | AcDeop ustring ustring
  | AcNotice ustring ustring
  | AcWall ustring
  | AcSetMotd "ustring list"

text \<open>A message event is: from, target, text (none for a private one), and whether it was a notice.\<close>

datatype event_kind =
    EvConnected nat
  | EvDropped nat ustring
  | EvRegistered nat ustring
  | EvNickChanged ustring ustring
  | EvJoined ustring ustring
  | EvParted ustring ustring "ustring option"
  | EvKicked ustring ustring ustring "ustring option"
  | EvQuit ustring ustring
  | EvMode ustring ustring ustring bool
  | EvTopic ustring ustring ustring
  | EvMessage ustring ustring "ustring option" bool
  | EvAdmin bool ustring

record server_event =
  ev_at :: nat
  ev_kind :: event_kind

text \<open>\<^verbatim>\<open>{n:x}\<close>: lower-case hexadecimal without padding.\<close>

definition hex_char :: "nat \<Rightarrow> uchar" where
  "hex_char d = (if d < 10 then 48 + d else 87 + d)"

fun show_hex :: "nat \<Rightarrow> ustring" where
  "show_hex n = (if n < 16 then [hex_char n] else show_hex (n div 16) @ [hex_char (n mod 16)])"

declare show_hex.simps [simp del]

definition is_bidi :: "uchar \<Rightarrow> bool" where
  "is_bidi c \<longleftrightarrow> c = 0x61C \<or> c = 0x200E \<or> c = 0x200F \<or> (0x202A \<le> c \<and> c \<le> 0x202E) \<or> (0x2066 \<le> c \<and> c \<le> 0x2069)"

definition clean_char :: "uchar \<Rightarrow> ustring" where
  "clean_char c =
     (if is_control c \<or> is_bidi c then
        (if c \<le> 0xFF then [0x5C, ch (CHR ''x'')] @ (if c < 16 then [48] else []) @ show_hex c
         else [0x5C, ch (CHR ''u''), ch (CHR ''{'')] @ show_hex c @ [ch (CHR ''}'')])
      else [c])"

definition clean :: "ustring \<Rightarrow> ustring" where
  "clean s = concat (map clean_char s)"

fun sanitized :: "event_kind \<Rightarrow> event_kind" where
  "sanitized (EvConnected conn) = EvConnected conn"
| "sanitized (EvDropped conn reason) = EvDropped conn (clean reason)"
| "sanitized (EvRegistered conn nick) = EvRegistered conn (clean nick)"
| "sanitized (EvNickChanged old new) = EvNickChanged (clean old) (clean new)"
| "sanitized (EvJoined nick channel) = EvJoined (clean nick) (clean channel)"
| "sanitized (EvParted nick channel reason) =
     EvParted (clean nick) (clean channel) (map_option clean reason)"
| "sanitized (EvKicked nick channel by_name reason) =
     EvKicked (clean nick) (clean channel) (clean by_name) (map_option clean reason)"
| "sanitized (EvQuit nick reason) = EvQuit (clean nick) (clean reason)"
| "sanitized (EvMode channel by_name nick op) = EvMode (clean channel) (clean by_name) (clean nick) op"
| "sanitized (EvTopic channel by_name topic) = EvTopic (clean channel) (clean by_name) (clean topic)"
| "sanitized (EvMessage from target body notice) =
     EvMessage (clean from) (clean target) (map_option clean body) notice"
| "sanitized (EvAdmin ok body) = EvAdmin ok (clean body)"

definition new_event :: "nat \<Rightarrow> event_kind \<Rightarrow> server_event" where
  "new_event now kind = \<lparr>ev_at = now, ev_kind = sanitized kind\<rparr>"

definition why_suffix :: "ustring option \<Rightarrow> ustring" where
  "why_suffix reason = (case reason of Some r \<Rightarrow> if r \<noteq> [] then U '' ('' @ r @ U '')'' else [] | None \<Rightarrow> [])"

fun describe_unchecked :: "event_kind \<Rightarrow> ustring" where
  "describe_unchecked (EvConnected conn) = U ''connection #'' @ show_nat conn @ U '' opened''"
| "describe_unchecked (EvDropped conn reason) =
     U ''connection #'' @ show_nat conn @ U '' closed before registering ('' @ reason @ U '')''"
| "describe_unchecked (EvRegistered conn nick) =
     nick @ U '' registered (connection #'' @ show_nat conn @ U '')''"
| "describe_unchecked (EvNickChanged old new) = old @ U '' is now '' @ new"
| "describe_unchecked (EvJoined nick channel) = nick @ U '' joined '' @ channel"
| "describe_unchecked (EvParted nick channel reason) = nick @ U '' left '' @ channel @ why_suffix reason"
| "describe_unchecked (EvKicked nick channel by_name reason) =
     by_name @ U '' kicked '' @ nick @ U '' from '' @ channel @ why_suffix reason"
| "describe_unchecked (EvQuit nick reason) = nick @ U '' quit ('' @ reason @ U '')''"
| "describe_unchecked (EvMode channel by_name nick op) =
     by_name @ [32] @ (if op then U ''gave'' else U ''took'') @ U '' operator status ''
     @ (if op then U ''to'' else U ''from'') @ [32] @ nick @ U '' in '' @ channel"
| "describe_unchecked (EvTopic channel by_name topic) =
     (if topic = [] then by_name @ U '' cleared the topic of '' @ channel
      else by_name @ U '' set the topic of '' @ channel @ U '': '' @ topic)"
| "describe_unchecked (EvMessage from target body notice) =
     (case body of
        Some t \<Rightarrow> if notice then target @ U '' -'' @ from @ U ''- '' @ t
                  else target @ U '' <'' @ from @ U ''> '' @ t
      | None \<Rightarrow> from @ U '' sent a private message to '' @ target)"
| "describe_unchecked (EvAdmin ok body) = (if ok then U ''ok: '' else U ''refused: '') @ body"

definition describe :: "server_event \<Rightarrow> ustring" where
  "describe e = clean (describe_unchecked (ev_kind e))"

section \<open>Escaped text\<close>

definition is_safe :: "uchar \<Rightarrow> bool" where
  "is_safe c \<longleftrightarrow> \<not> is_control c \<and> \<not> is_bidi c"

definition safe_text :: "ustring \<Rightarrow> bool" where
  "safe_text s \<longleftrightarrow> list_all is_safe s"

text \<open>The strings of an event.\<close>

fun event_strings :: "event_kind \<Rightarrow> ustring list" where
  "event_strings (EvConnected conn) = []"
| "event_strings (EvDropped conn reason) = [reason]"
| "event_strings (EvRegistered conn nick) = [nick]"
| "event_strings (EvNickChanged old new) = [old, new]"
| "event_strings (EvJoined nick channel) = [nick, channel]"
| "event_strings (EvParted nick channel reason) = nick # channel # (case reason of None \<Rightarrow> [] | Some r \<Rightarrow> [r])"
| "event_strings (EvKicked nick channel by_name reason) =
     nick # channel # by_name # (case reason of None \<Rightarrow> [] | Some r \<Rightarrow> [r])"
| "event_strings (EvQuit nick reason) = [nick, reason]"
| "event_strings (EvMode channel by_name nick op) = [channel, by_name, nick]"
| "event_strings (EvTopic channel by_name topic) = [channel, by_name, topic]"
| "event_strings (EvMessage from target body notice) =
     from # target # (case body of None \<Rightarrow> [] | Some t \<Rightarrow> [t])"
| "event_strings (EvAdmin ok body) = [body]"

lemma hex_char_safe: "d < 16 \<Longrightarrow> is_safe (hex_char d)"
  by (auto simp: hex_char_def is_safe_def is_control_def is_bidi_def)

lemma show_hex_safe: "list_all is_safe (show_hex n)"
proof (induction n rule: show_hex.induct)
  case (1 n)
  then show ?case by (subst show_hex.simps) (simp add: hex_char_safe)
qed

lemma clean_char_safe: "list_all is_safe (clean_char c)"
proof (cases "is_control c \<or> is_bidi c")
  case True
  have "is_safe 0x5C" "is_safe 120" "is_safe 117" "is_safe 123" "is_safe 125" "is_safe 48"
    by (simp_all add: is_safe_def is_control_def is_bidi_def)
  with True show ?thesis by (simp add: clean_char_def show_hex_safe)
qed (simp add: clean_char_def is_safe_def)

lemma clean_safe: "safe_text (clean s)"
  by (induction s) (simp_all add: safe_text_def clean_def clean_char_safe)

lemma clean_id: "safe_text s \<Longrightarrow> clean s = s"
  by (induction s) (auto simp: safe_text_def clean_def clean_char_def is_safe_def)

lemma clean_idem [simp]: "clean (clean s) = clean s"
  by (rule clean_id [OF clean_safe])

lemma clean_append: "clean (a @ b) = clean a @ clean b"
  by (simp add: clean_def)

lemma sanitized_safe: "list_all safe_text (event_strings (sanitized k))"
  by (cases k) (simp_all add: clean_safe split: option.splits)

lemma sanitized_idem: "sanitized (sanitized k) = sanitized k"
  by (cases k) (simp_all add: option.map_comp comp_def)

lemma digits_safe: "list_all is_safe (show_nat n)"
proof -
  have "is_safe c" if "is_ascii_digit c" for c
    using that by (auto simp: is_ascii_digit_def is_safe_def is_control_def is_bidi_def)
  then show ?thesis using show_nat_digits by (auto simp: list_all_iff)
qed

end
