(* ===== verification/Network.thy ===== *)
theory Network
  imports Irc_Proto Admin_Event "HOL-Library.Product_Lexorder"
begin

text \<open>
  Model of \<^verbatim>\<open>core/ddirc-server/src/state.rs\<close>: the single-task state of the server. \<open>net\<close> is the record
  \<^verbatim>\<open>Network\<close> with three fields for what the code does to the outside: \<open>n_out\<close> is the sequence of
  messages handed to the clients' channels, each with the connection it goes to; \<open>n_log\<close> is what the
  observer was sent; \<open>n_now\<close> is what the clock reads while an event is handled. A connection is
  identified by a number; a hash map is an association list and a hash set a list without
  repetitions (see theory \<open>Prelude\<close>), so a loop over one visits every element once. \<open>render\<close> stands
  for \<^verbatim>\<open>String::from(&Command)\<close> of the protocol crate.
\<close>

section \<open>State\<close>

definition DEFAULT_SERVER_NAME :: ustring where "DEFAULT_SERVER_NAME = U ''ddirc.local''"
definition DEFAULT_NETWORK_NAME :: ustring where "DEFAULT_NETWORK_NAME = U ''Local''"
definition HOST :: ustring where "HOST = U ''localhost''"
definition NICK_LEN :: nat where "NICK_LEN = 30"
definition CHANNEL_LEN :: nat where "CHANNEL_LEN = 50"
definition TOPIC_LEN :: nat where "TOPIC_LEN = 390"

record client =
  cl_nick :: "ustring option"
  cl_user :: "ustring option"
  cl_real :: "ustring option"
  cl_registered :: bool
  cl_negotiating :: bool
  cl_quit_reason :: "ustring option"
  cl_channels :: "ustring list"
  cl_connected_at :: nat

definition client_nick :: "client \<Rightarrow> ustring" where
  "client_nick c = (case cl_nick c of Some nick \<Rightarrow> nick | None \<Rightarrow> U ''*'')"

definition client_prefix :: "client \<Rightarrow> prefix_src" where
  "client_prefix c = Nickname (client_nick c)
     (case cl_user c of Some user \<Rightarrow> user | None \<Rightarrow> client_nick c) HOST"

record topic =
  t_text :: ustring
  t_set_by :: ustring
  t_at :: nat

record room =
  r_name :: ustring
  r_topic :: "topic option"
  r_members :: "nat list"
  r_operators :: "nat list"

record net =
  n_server_name :: ustring
  n_network_name :: ustring
  n_version :: ustring
  n_clients :: "(nat, client) hmap"
  n_nicks :: "(ustring, nat) hmap"
  n_rooms :: "(ustring, room) hmap"
  n_motd :: "ustring list"
  n_banned :: "ustring list"
  n_observed :: bool
  n_started_at :: nat
  n_connections_total :: nat
  n_messages_total :: nat
  n_now :: nat
  n_out :: "(nat \<times> message) list"
  n_log :: "server_event list"

definition default_motd :: "ustring list" where
  "default_motd =
     [U ''This network runs inside ddIRC, on this machine only.'',
      U ''It is a beta feature: expect gaps, and do not rely on it.'',
      U ''Nothing here is reachable from any other machine.'']"

definition fold_name :: "ustring \<Rightarrow> ustring" where
  "fold_name name = to_ascii_lowercase name"

text \<open>
  \<open>find_boundary s e\<close> is the loop that steps back from byte \<open>e\<close> to a character boundary, and the
  slice up to it.
\<close>

fun find_boundary :: "ustring \<Rightarrow> nat \<Rightarrow> nat" where
  "find_boundary s 0 = 0"
| "find_boundary s (Suc e) = (if is_char_boundary s (Suc e) then Suc e else find_boundary s e)"

definition truncate_bytes :: "ustring \<Rightarrow> nat \<Rightarrow> ustring" where
  "truncate_bytes s bound =
     (if blen s \<le> bound then s
      else case slice_to s (find_boundary s bound) of Some t \<Rightarrow> t | None \<Rightarrow> [])"

definition is_channel :: "ustring \<Rightarrow> bool" where
  "is_channel name \<longleftrightarrow> starts_with (U ''#'') name"

definition valid_nick :: "ustring \<Rightarrow> bool" where
  "valid_nick nick \<longleftrightarrow> nick \<noteq> [] \<and> blen nick \<le> NICK_LEN
     \<and> \<not> starts_with (U ''#'') nick \<and> \<not> starts_with (U '':'') nick
     \<and> ch (CHR '' '') \<notin> set nick \<and> ch (CHR '','') \<notin> set nick \<and> ch (CHR ''!'') \<notin> set nick
     \<and> ch (CHR ''@'') \<notin> set nick \<and> list_all (\<lambda>c. \<not> is_control c) nick"

definition valid_channel :: "ustring \<Rightarrow> bool" where
  "valid_channel name \<longleftrightarrow> is_channel name \<and> blen name \<le> CHANNEL_LEN \<and> blen name > 1
     \<and> ch (CHR '' '') \<notin> set name \<and> ch (CHR '','') \<notin> set name \<and> list_all (\<lambda>c. \<not> is_control c) name"

definition new_net :: "ustring \<Rightarrow> ustring \<Rightarrow> ustring \<Rightarrow> nat \<Rightarrow> net" where
  "new_net server_name network_name package_version now =
     \<lparr>n_server_name = server_name, n_network_name = network_name,
      n_version = U ''ddirc-server-'' @ package_version,
      n_clients = [], n_nicks = [], n_rooms = [], n_motd = default_motd, n_banned = [],
      n_observed = False, n_started_at = now, n_connections_total = 0, n_messages_total = 0,
      n_now = now, n_out = [], n_log = []\<rparr>"

definition observe :: "net \<Rightarrow> net" where
  "observe n = n\<lparr>n_observed := True\<rparr>"

definition emit :: "event_kind \<Rightarrow> net \<Rightarrow> net" where
  "emit kind n = (if n_observed n then n\<lparr>n_log := n_log n @ [new_event (n_now n) kind]\<rparr> else n)"

definition client_count :: "net \<Rightarrow> nat" where
  "client_count n = length (n_clients n)"

section \<open>Sending\<close>

definition is_registered :: "nat \<Rightarrow> net \<Rightarrow> bool" where
  "is_registered who n = (case hm_get (n_clients n) who of Some c \<Rightarrow> cl_registered c | None \<Rightarrow> False)"

definition nick_of :: "nat \<Rightarrow> net \<Rightarrow> ustring" where
  "nick_of who n = (case hm_get (n_clients n) who of Some c \<Rightarrow> client_nick c | None \<Rightarrow> U ''*'')"

definition prefix_of :: "nat \<Rightarrow> net \<Rightarrow> prefix_src" where
  "prefix_of who n =
     (case hm_get (n_clients n) who of Some c \<Rightarrow> client_prefix c | None \<Rightarrow> ServerName (n_server_name n))"

definition claim_nick :: "nat \<Rightarrow> ustring \<Rightarrow> net \<Rightarrow> net" where
  "claim_nick who nick n =
     (let freed = (case Option.bind (hm_get (n_clients n) who) cl_nick of
                     Some previous \<Rightarrow> hm_remove (fold_name previous) (n_nicks n)
                   | None \<Rightarrow> n_nicks n)
      in n\<lparr>n_nicks := hm_insert (fold_name nick) who freed,
           n_clients := hm_modify who (\<lambda>c. c\<lparr>cl_nick := Some nick\<rparr>) (n_clients n)\<rparr>)"

definition send :: "nat \<Rightarrow> message \<Rightarrow> net \<Rightarrow> net" where
  "send who m n = (if hm_has (n_clients n) who then n\<lparr>n_out := n_out n @ [(who, m)]\<rparr> else n)"

fun send_each :: "nat list \<Rightarrow> message \<Rightarrow> nat option \<Rightarrow> net \<Rightarrow> net" where
  "send_each [] m skip n = n"
| "send_each (x # xs) m skip n = send_each xs m skip (if Some x \<noteq> skip then send x m n else n)"

definition broadcast :: "ustring \<Rightarrow> message \<Rightarrow> nat option \<Rightarrow> net \<Rightarrow> net" where
  "broadcast key m skip n =
     (case hm_get (n_rooms n) key of None \<Rightarrow> n | Some r \<Rightarrow> send_each (r_members r) m skip n)"

text \<open>The inner loop over a member set that tells everybody not told yet.\<close>

fun tell_loop :: "message \<Rightarrow> nat list \<Rightarrow> nat list \<Rightarrow> net \<Rightarrow> nat list \<times> net" where
  "tell_loop m [] told n = (told, n)"
| "tell_loop m (x # xs) told n =
     (if x \<in> set told then tell_loop m xs told n else tell_loop m xs (x # told) (send x m n))"

fun peers_loop :: "message \<Rightarrow> ustring list \<Rightarrow> nat list \<Rightarrow> net \<Rightarrow> net" where
  "peers_loop m [] told n = n"
| "peers_loop m (name # names) told n =
     (case hm_get (n_rooms n) name of
        None \<Rightarrow> peers_loop m names told n
      | Some r \<Rightarrow> (let (told', n') = tell_loop m (r_members r) told n in peers_loop m names told' n'))"

definition tell_peers :: "nat \<Rightarrow> message \<Rightarrow> bool \<Rightarrow> net \<Rightarrow> net" where
  "tell_peers who m include_self n =
     (case hm_get (n_clients n) who of
        None \<Rightarrow> n
      | Some c \<Rightarrow>
          if include_self then peers_loop m (cl_channels c) [who] (send who m n)
          else peers_loop m (cl_channels c) [] n)"

definition server_msg :: "net \<Rightarrow> command \<Rightarrow> message" where
  "server_msg n c = \<lparr>msg_prefix = Some (ServerName (n_server_name n)), msg_command = c\<rparr>"

definition numeric_args :: "nat \<Rightarrow> response \<Rightarrow> ustring list \<Rightarrow> net \<Rightarrow> net" where
  "numeric_args who resp args n = send who (server_msg n (Response resp (nick_of who n # args))) n"

definition numeric :: "nat \<Rightarrow> response \<Rightarrow> ustring list \<Rightarrow> net \<Rightarrow> net" where
  "numeric who resp args n = numeric_args who resp args n"

definition raw :: "nat \<Rightarrow> ustring \<Rightarrow> ustring list \<Rightarrow> net \<Rightarrow> net" where
  "raw who verb args n = send who (server_msg n (Raw verb args)) n"

section \<open>Connections\<close>

definition new_client :: "nat \<Rightarrow> client" where
  "new_client now = \<lparr>cl_nick = None, cl_user = None, cl_real = None, cl_registered = False,
     cl_negotiating = False, cl_quit_reason = None, cl_channels = [], cl_connected_at = now\<rparr>"

definition connect :: "nat \<Rightarrow> net \<Rightarrow> net" where
  "connect who n =
     (let n1 = emit (EvConnected who) (n\<lparr>n_connections_total := n_connections_total n + 1\<rparr>)
      in n1\<lparr>n_clients := hm_insert who (new_client (n_now n)) (n_clients n1)\<rparr>)"

fun quit_loop :: "nat \<Rightarrow> message \<Rightarrow> ustring list \<Rightarrow> nat list \<Rightarrow> net \<Rightarrow> net" where
  "quit_loop who m [] told n = n"
| "quit_loop who m (name # names) told n =
     (case hm_get (n_rooms n) name of
        None \<Rightarrow> quit_loop who m names told n
      | Some r \<Rightarrow>
          (let r' = r\<lparr>r_members := removeAll who (r_members r), r_operators := removeAll who (r_operators r)\<rparr>;
               (told', n') = tell_loop m (r_members r') told (n\<lparr>n_rooms := hm_insert name r' (n_rooms n)\<rparr>)
           in quit_loop who m names told' n'))"

definition disconnect :: "nat \<Rightarrow> ustring \<Rightarrow> net \<Rightarrow> net" where
  "disconnect who reason n =
     (case hm_get (n_clients n) who of
        None \<Rightarrow> n
      | Some c \<Rightarrow>
          (let n1 = n\<lparr>n_clients := hm_remove who (n_clients n),
                      n_nicks := (case cl_nick c of Some nick \<Rightarrow> hm_remove (fold_name nick) (n_nicks n)
                                  | None \<Rightarrow> n_nicks n)\<rparr>;
               said = (case cl_quit_reason c of Some q \<Rightarrow> q | None \<Rightarrow> reason);
               n2 = (case cl_nick c of
                       Some nick \<Rightarrow> emit (if cl_registered c then EvQuit nick said else EvDropped who said) n1
                     | None \<Rightarrow> emit (EvDropped who said) n1);
               quit = \<lparr>msg_prefix = Some (client_prefix c), msg_command = QUIT (Some said)\<rparr>;
               n3 = quit_loop who quit (cl_channels c) [] n2
           in n3\<lparr>n_rooms := filter (\<lambda>(k, r). r_members r \<noteq> []) (n_rooms n3)\<rparr>))"

definition close :: "nat \<Rightarrow> ustring \<Rightarrow> net \<Rightarrow> net" where
  "close who reason0 n =
     (let reason = truncate_bytes reason0 TOPIC_LEN;
          n1 = send who \<lparr>msg_prefix = None,
                 msg_command = ERROR (U ''Closing Link: '' @ HOST @ U '' ('' @ reason @ U '')'')\<rparr> n;
          n2 = n1\<lparr>n_clients := hm_modify who (\<lambda>c. c\<lparr>cl_quit_reason := Some reason\<rparr>) (n_clients n1)\<rparr>
      in disconnect who reason n2)"

section \<open>Registration\<close>

definition send_motd :: "nat \<Rightarrow> net \<Rightarrow> net" where
  "send_motd who n =
     (let n1 = numeric who RPL_MOTDSTART [U ''- '' @ n_server_name n @ U '' Message of the Day -''] n;
          n2 = foldl (\<lambda>n line. numeric who RPL_MOTD [U ''- '' @ line] n) n1 (n_motd n1)
      in numeric who RPL_ENDOFMOTD [U ''End of /MOTD command''] n2)"

definition isupport_tokens :: "net \<Rightarrow> ustring" where
  "isupport_tokens n =
     U ''NETWORK='' @ n_network_name n @ U '' CASEMAPPING=ascii CHANTYPES=# PREFIX=(o)@ CHANMODES=,,, NICKLEN=''
     @ show_nat NICK_LEN @ U '' CHANNELLEN='' @ show_nat CHANNEL_LEN @ U '' TOPICLEN='' @ show_nat TOPIC_LEN"

definition send_welcome :: "nat \<Rightarrow> net \<Rightarrow> net" where
  "send_welcome who n =
     (let nick = nick_of who n; server = n_server_name n; network = n_network_name n; version = n_version n;
          n1 = numeric who RPL_WELCOME [U ''Welcome to the '' @ network @ U '' Network, '' @ nick] n;
          n2 = numeric who RPL_YOURHOST
                 [U ''Your host is '' @ server @ U '', running version '' @ version] n1;
          n3 = numeric who RPL_CREATED [U ''This server was created when you started it''] n2;
          n4 = numeric_args who RPL_MYINFO [server, version, [], []] n3;
          args = [nick] @ filter (\<lambda>t. t \<noteq> []) (split_on (\<lambda>c. c = 32) (isupport_tokens n))
                 @ [U ''are supported by this server''];
          n5 = send who (server_msg n (Response RPL_ISUPPORT args)) n4
      in send_motd who n5)"

definition try_register :: "nat \<Rightarrow> net \<Rightarrow> net" where
  "try_register who n =
     (case hm_get (n_clients n) who of
        None \<Rightarrow> n
      | Some c \<Rightarrow>
          if \<not> cl_registered c \<and> \<not> cl_negotiating c \<and> cl_nick c \<noteq> None \<and> cl_user c \<noteq> None
          then (let n1 = n\<lparr>n_clients := hm_modify who (\<lambda>c. c\<lparr>cl_registered := True\<rparr>) (n_clients n)\<rparr>;
                    n2 = send_welcome who n1
                in emit (EvRegistered who (nick_of who n2)) n2)
          else n)"

definition srv_on_cap :: "nat \<Rightarrow> cap_sub \<Rightarrow> net \<Rightarrow> net" where
  "srv_on_cap who sub n =
     (case sub of
        CapLS \<Rightarrow> (let n1 = n\<lparr>n_clients := hm_modify who (\<lambda>c. c\<lparr>cl_negotiating := True\<rparr>) (n_clients n)\<rparr>
                 in raw who (U ''CAP'') [nick_of who n1, U ''LS'', []] n1)
      | CapLIST \<Rightarrow> (let n1 = n\<lparr>n_clients := hm_modify who (\<lambda>c. c\<lparr>cl_negotiating := True\<rparr>) (n_clients n)\<rparr>
                 in raw who (U ''CAP'') [nick_of who n1, U ''LS'', []] n1)
      | CapREQ \<Rightarrow> raw who (U ''CAP'') [nick_of who n, U ''NAK'', []] n
      | CapEND \<Rightarrow> try_register who
                   (n\<lparr>n_clients := hm_modify who (\<lambda>c. c\<lparr>cl_negotiating := False\<rparr>) (n_clients n)\<rparr>)
      | _ \<Rightarrow> n)"

definition srv_on_nick :: "nat \<Rightarrow> ustring \<Rightarrow> net \<Rightarrow> net" where
  "srv_on_nick who nick0 n =
     (let nick = trim nick0
      in if nick = [] then numeric who ERR_NONICKNAMEGIVEN [U ''No nickname given''] n
         else if \<not> valid_nick nick then numeric_args who ERR_ERRONEOUSNICKNAME [nick, U ''Erroneous nickname''] n
         else if fold_name nick \<in> set (n_banned n) then
           numeric_args who ERR_ERRONEOUSNICKNAME [nick, U ''Nickname is banned from this server''] n
         else if (case hm_get (n_nicks n) (fold_name nick) of Some holder \<Rightarrow> holder \<noteq> who | None \<Rightarrow> False) then
           numeric_args who ERR_NICKNAMEINUSE [nick, U ''Nickname is already in use''] n
         else
           (let was = Option.bind (hm_get (n_clients n) who) cl_nick;
                registered = is_registered who n;
                n1 = claim_nick who nick n
            in case (registered, was) of
                 (True, Some old) \<Rightarrow>
                   if old \<noteq> nick then
                     (let n2 = emit (EvNickChanged old nick) n1;
                          user = (case Option.bind (hm_get (n_clients n2) who) cl_user of
                                    Some u \<Rightarrow> u | None \<Rightarrow> nick)
                      in tell_peers who \<lparr>msg_prefix = Some (Nickname old user HOST), msg_command = NICK nick\<rparr>
                           True n2)
                   else n1
               | (False, _) \<Rightarrow> try_register who n1
               | _ \<Rightarrow> n1))"

definition srv_on_user :: "nat \<Rightarrow> ustring \<Rightarrow> ustring \<Rightarrow> net \<Rightarrow> net" where
  "srv_on_user who user real n =
     (if is_registered who n then numeric who ERR_ALREADYREGISTRED [U ''You may not reregister''] n
      else try_register who
             (n\<lparr>n_clients := hm_modify who (\<lambda>c. c\<lparr>cl_user := Some user, cl_real := Some real\<rparr>) (n_clients n)\<rparr>))"

section \<open>Channels\<close>

definition send_topic :: "nat \<Rightarrow> ustring \<Rightarrow> bool \<Rightarrow> net \<Rightarrow> net" where
  "send_topic who key explicit n =
     (case hm_get (n_rooms n) key of
        None \<Rightarrow> n
      | Some r \<Rightarrow>
          (case r_topic r of
             Some t \<Rightarrow> numeric_args who RPL_TOPICWHOTIME [r_name r, t_set_by t, show_nat (t_at t)]
                         (numeric_args who RPL_TOPIC [r_name r, t_text t] n)
           | None \<Rightarrow> if explicit then numeric_args who RPL_NOTOPIC [r_name r, U ''No topic is set''] n else n))"

definition member_names :: "room \<Rightarrow> net \<Rightarrow> ustring list" where
  "member_names r n =
     sort (List.map_filter
       (\<lambda>m. map_option (\<lambda>nick. if m \<in> set (r_operators r) then ch (CHR ''@'') # nick else nick)
              (Option.bind (hm_get (n_clients n) m) cl_nick))
       (r_members r))"

definition send_names :: "nat \<Rightarrow> ustring \<Rightarrow> net \<Rightarrow> net" where
  "send_names who name n =
     (let (shown, names) = (case hm_get (n_rooms n) (fold_name name) of
            Some r \<Rightarrow> (r_name r, member_names r n)
          | None \<Rightarrow> (name, []));
          n1 = (if names \<noteq> [] then numeric_args who RPL_NAMREPLY [U ''='', shown, join [32] names] n else n)
      in numeric_args who RPL_ENDOFNAMES [shown, U ''End of /NAMES list''] n1)"

definition in_room :: "nat \<Rightarrow> ustring \<Rightarrow> net \<Rightarrow> bool" where
  "in_room who key n = (case hm_get (n_rooms n) key of Some r \<Rightarrow> who \<in> set (r_members r) | None \<Rightarrow> False)"

definition enter_room :: "nat \<Rightarrow> ustring \<Rightarrow> net \<Rightarrow> net" where
  "enter_room who name n =
     (let key = fold_name name;
          r = (case hm_get (n_rooms n) key of
                 Some r \<Rightarrow> r\<lparr>r_members := hs_insert who (r_members r)\<rparr>
               | None \<Rightarrow> \<lparr>r_name = name, r_topic = None, r_members = [who], r_operators = [who]\<rparr>)
      in n\<lparr>n_rooms := hm_insert key r (n_rooms n),
           n_clients := hm_modify who (\<lambda>c. c\<lparr>cl_channels := hs_insert key (cl_channels c)\<rparr>) (n_clients n)\<rparr>)"

definition srv_on_join :: "nat \<Rightarrow> ustring \<Rightarrow> net \<Rightarrow> net" where
  "srv_on_join who name n =
     (if \<not> valid_channel name then numeric_args who ERR_NOSUCHCHANNEL [name, U ''No such channel''] n
      else if in_room who (fold_name name) n then n
      else
        (let key = fold_name name;
             n1 = enter_room who name n;
             shown = (case hm_get (n_rooms n1) key of Some r \<Rightarrow> r_name r | None \<Rightarrow> name);
             join_msg = \<lparr>msg_prefix = Some (prefix_of who n1), msg_command = JOIN shown None None\<rparr>;
             n2 = send who join_msg n1;
             n3 = broadcast key join_msg (Some who) n2;
             n4 = emit (EvJoined (nick_of who n3) shown) n3;
             n5 = send_topic who key False n4
         in send_names who shown n5))"

text \<open>The removal at the end of a part and of a kick; the room goes with its last member.\<close>

definition leave_room :: "ustring \<Rightarrow> nat \<Rightarrow> net \<Rightarrow> net" where
  "leave_room key who n =
     (let rooms = (case hm_get (n_rooms n) key of
            None \<Rightarrow> n_rooms n
          | Some r \<Rightarrow>
              (let r' = r\<lparr>r_members := removeAll who (r_members r), r_operators := removeAll who (r_operators r)\<rparr>
               in if r_members r' = [] then hm_remove key (n_rooms n) else hm_insert key r' (n_rooms n)))
      in n\<lparr>n_rooms := rooms,
           n_clients := hm_modify who (\<lambda>c. c\<lparr>cl_channels := removeAll key (cl_channels c)\<rparr>) (n_clients n)\<rparr>)"

definition srv_on_part :: "nat \<Rightarrow> ustring \<Rightarrow> ustring option \<Rightarrow> net \<Rightarrow> net" where
  "srv_on_part who name reason n =
     (let key = fold_name name
      in case hm_get (n_rooms n) key of
           None \<Rightarrow> numeric_args who ERR_NOTONCHANNEL [name, U ''You're not on that channel''] n
         | Some r \<Rightarrow>
             if who \<notin> set (r_members r)
             then numeric_args who ERR_NOTONCHANNEL [name, U ''You're not on that channel''] n
             else
               (let n1 = broadcast key
                      \<lparr>msg_prefix = Some (prefix_of who n), msg_command = PART (r_name r) reason\<rparr> None n;
                    n2 = emit (EvParted (nick_of who n1) (r_name r) reason) n1
                in leave_room key who n2))"

definition set_topic :: "ustring \<Rightarrow> ustring \<Rightarrow> ustring \<Rightarrow> net \<Rightarrow> net" where
  "set_topic key body setter n =
     n\<lparr>n_rooms := hm_modify key (\<lambda>r. r\<lparr>r_topic :=
        (if body = [] then None else Some \<lparr>t_text = body, t_set_by = setter, t_at = n_now n\<rparr>)\<rparr>) (n_rooms n)\<rparr>"

definition srv_on_topic :: "nat \<Rightarrow> ustring \<Rightarrow> ustring option \<Rightarrow> net \<Rightarrow> net" where
  "srv_on_topic who name new_topic n =
     (let key = fold_name name
      in case hm_get (n_rooms n) key of
           None \<Rightarrow> numeric_args who ERR_NOSUCHCHANNEL [name, U ''No such channel''] n
         | Some r \<Rightarrow>
             (case new_topic of
                None \<Rightarrow> send_topic who key True n
              | Some body0 \<Rightarrow>
                  if who \<notin> set (r_members r)
                  then numeric_args who ERR_NOTONCHANNEL [name, U ''You're not on that channel''] n
                  else
                    (let body = truncate_bytes body0 TOPIC_LEN;
                         n1 = set_topic key body (nick_of who n) n;
                         n2 = emit (EvTopic (r_name r) (nick_of who n1) body) n1
                     in broadcast key
                          \<lparr>msg_prefix = Some (prefix_of who n2), msg_command = TOPIC (r_name r) (Some body)\<rparr>
                          None n2)))"

section \<open>Messages\<close>

definition reportable :: "nat \<Rightarrow> ustring \<Rightarrow> net \<Rightarrow> bool" where
  "reportable who target n =
     (if is_channel target then in_room who (fold_name target) n
      else hm_has (n_nicks n) (fold_name target))"

definition srv_on_message :: "nat \<Rightarrow> ustring \<Rightarrow> ustring \<Rightarrow> bool \<Rightarrow> net \<Rightarrow> net" where
  "srv_on_message who target body notice n =
     (if target = [] then
        (if notice then n else numeric who ERR_NORECIPIENT [U ''No recipient given''] n)
      else if body = [] then
        (if notice then n else numeric who ERR_NOTEXTTOSEND [U ''No text to send''] n)
      else
        (let m = \<lparr>msg_prefix = Some (prefix_of who n),
                   msg_command = (if notice then NOTICE target body else PRIVMSG target body)\<rparr>;
             n1 = n\<lparr>n_messages_total := n_messages_total n + 1\<rparr>;
             n2 = (if reportable who target n1
                   then emit (EvMessage (nick_of who n1) target
                                (if is_channel target then Some body else None) notice) n1
                   else n1)
         in if is_channel target then
              (if \<not> in_room who (fold_name target) n2 then
                 (if notice then n2
                  else numeric_args who ERR_CANNOTSENDTOCHAN [target, U ''Cannot send to channel''] n2)
               else broadcast (fold_name target) m (Some who) n2)
            else
              (case hm_get (n_nicks n2) (fold_name target) of
                 Some dest \<Rightarrow> send dest m n2
               | None \<Rightarrow> if notice then n2
                   else numeric_args who ERR_NOSUCHNICK [target, U ''No such nick/channel''] n2)))"

definition by_name :: "prefix_src \<Rightarrow> ustring" where
  "by_name p = (case p of Nickname nick _ _ \<Rightarrow> nick | ServerName name \<Rightarrow> name)"

definition kick_member :: "ustring \<Rightarrow> nat \<Rightarrow> prefix_src \<Rightarrow> ustring option \<Rightarrow> net \<Rightarrow> net" where
  "kick_member key victim by_whom reason n =
     (case hm_get (n_rooms n) key of
        None \<Rightarrow> n
      | Some r \<Rightarrow>
          (let victim_nick = nick_of victim n;
               kick = \<lparr>msg_prefix = Some by_whom, msg_command = KICK (r_name r) victim_nick
                 (Some (case reason of Some why \<Rightarrow> why | None \<Rightarrow> by_name by_whom))\<rparr>;
               n1 = broadcast key kick None n;
               n2 = emit (EvKicked victim_nick (r_name r) (by_name by_whom) reason) n1
           in leave_room key victim n2))"

definition srv_on_kick :: "nat \<Rightarrow> ustring \<Rightarrow> ustring \<Rightarrow> ustring option \<Rightarrow> net \<Rightarrow> net" where
  "srv_on_kick who name nick reason n =
     (let key = fold_name name
      in case hm_get (n_rooms n) key of
           None \<Rightarrow> numeric_args who ERR_NOSUCHCHANNEL [name, U ''No such channel''] n
         | Some r \<Rightarrow>
             if who \<notin> set (r_members r)
             then numeric_args who ERR_NOTONCHANNEL [name, U ''You're not on that channel''] n
             else if who \<notin> set (r_operators r)
             then numeric_args who ERR_CHANOPRIVSNEEDED [r_name r, U ''You're not channel operator''] n
             else
               (case hm_get (n_nicks n) (fold_name nick) of
                  None \<Rightarrow> numeric_args who ERR_USERNOTINCHANNEL
                            [nick, r_name r, U ''They aren't on that channel''] n
                | Some victim \<Rightarrow>
                    if victim \<in> set (r_members r)
                    then kick_member key victim (prefix_of who n)
                           (map_option (\<lambda>why. truncate_bytes why TOPIC_LEN) reason) n
                    else numeric_args who ERR_USERNOTINCHANNEL
                           [nick, r_name r, U ''They aren't on that channel''] n))"

section \<open>Queries\<close>

definition srv_on_list :: "nat \<Rightarrow> ustring option \<Rightarrow> net \<Rightarrow> net" where
  "srv_on_list who only n =
     (let wanted = map_option (\<lambda>names. map (\<lambda>nm. fold_name (trim nm)) (split_on (\<lambda>c. c = 44) names)) only;
          rooms = sort (map (\<lambda>(key, r). (key, length (r_members r),
                              case r_topic r of Some t \<Rightarrow> t_text t | None \<Rightarrow> []))
                   (filter (\<lambda>(key, r). case wanted of None \<Rightarrow> True | Some w \<Rightarrow> key \<in> set w) (n_rooms n)));
          n1 = numeric_args who RPL_LISTSTART [U ''Channel'', U ''Users  Name''] n;
          n2 = foldl (\<lambda>n (key, users, topic).
                 case hm_get (n_rooms n) key of
                   None \<Rightarrow> n
                 | Some r \<Rightarrow> numeric_args who RPL_LIST [r_name r, show_nat users, topic] n) n1 rooms
      in numeric who RPL_LISTEND [U ''End of /LIST''] n2)"

definition srv_on_whois :: "nat \<Rightarrow> ustring \<Rightarrow> net \<Rightarrow> net" where
  "srv_on_whois who nick n =
     (case Option.bind (hm_get (n_nicks n) (fold_name nick)) (\<lambda>t. if is_registered t n then Some t else None) of
        None \<Rightarrow> numeric_args who RPL_ENDOFWHOIS [nick, U ''End of /WHOIS list'']
                  (numeric_args who ERR_NOSUCHNICK [nick, U ''No such nick/channel''] n)
      | Some target \<Rightarrow>
          (case hm_get (n_clients n) target of
             None \<Rightarrow> n
           | Some c \<Rightarrow>
               (let name = client_nick c;
                    user = (case cl_user c of Some u \<Rightarrow> u | None \<Rightarrow> name);
                    real = (case cl_real c of Some r \<Rightarrow> r | None \<Rightarrow> []);
                    rooms = sort (List.map_filter (\<lambda>key. map_option
                        (\<lambda>r. if target \<in> set (r_operators r) then ch (CHR ''@'') # r_name r else r_name r)
                        (hm_get (n_rooms n) key)) (cl_channels c));
                    n1 = numeric_args who RPL_WHOISUSER [name, user, HOST, U ''*'', real] n;
                    n2 = numeric_args who RPL_WHOISSERVER [name, n_server_name n, n_network_name n] n1;
                    n3 = (if rooms \<noteq> [] then numeric_args who RPL_WHOISCHANNELS [name, join [32] rooms] n2
                          else n2)
                in numeric_args who RPL_ENDOFWHOIS [name, U ''End of /WHOIS list''] n3)))"

definition ping :: "nat \<Rightarrow> net \<Rightarrow> net" where
  "ping who n =
     (if \<not> is_registered who n then n
      else send who \<lparr>msg_prefix = None, msg_command = PING (n_server_name n) None\<rparr> n)"

definition srv_on_ping :: "nat \<Rightarrow> ustring \<Rightarrow> net \<Rightarrow> net" where
  "srv_on_ping who token n = send who (server_msg n (PONG (n_server_name n) (Some token))) n"

section \<open>Dispatch\<close>

definition kick_channel :: "ustring list \<Rightarrow> nat \<Rightarrow> ustring option" where
  "kick_channel channels i =
     (case channels of
        [only] \<Rightarrow> Some only
      | many \<Rightarrow> if i < length many then Some (many ! i) else None)"

fun kick_loop :: "nat \<Rightarrow> ustring list \<Rightarrow> ustring option \<Rightarrow> nat \<Rightarrow> ustring list \<Rightarrow> net \<Rightarrow> net" where
  "kick_loop who channels reason i [] n = n"
| "kick_loop who channels reason i (nick # nicks) n =
     (case kick_channel channels i of
        None \<Rightarrow> n
      | Some channel \<Rightarrow> kick_loop who channels reason (i + 1) nicks (srv_on_kick who channel nick reason n))"

definition comma_list :: "ustring \<Rightarrow> ustring list" where
  "comma_list s = map trim (split_on (\<lambda>c. c = 44) s)"

definition registered_command :: "(command \<Rightarrow> ustring) \<Rightarrow> nat \<Rightarrow> command \<Rightarrow> net \<Rightarrow> net" where
  "registered_command render who cmd n =
     (case cmd of
        JOIN targets _ _ \<Rightarrow> foldl (\<lambda>n target. srv_on_join who target n) n (comma_list targets)
      | PART targets reason \<Rightarrow> foldl (\<lambda>n target. srv_on_part who target reason n) n (comma_list targets)
      | PRIVMSG target body \<Rightarrow> srv_on_message who target body False n
      | NOTICE target body \<Rightarrow> srv_on_message who target body True n
      | TOPIC channel topic \<Rightarrow> srv_on_topic who channel topic n
      | KICK channels nicks reason \<Rightarrow> kick_loop who (comma_list channels) reason 0 (comma_list nicks) n
      | NAMES (Some channels) _ \<Rightarrow> foldl (\<lambda>n name. send_names who name n) n (comma_list channels)
      | MOTD _ \<Rightarrow> send_motd who n
      | LIST channels _ \<Rightarrow> srv_on_list who channels n
      | WHOIS target masks \<Rightarrow>
          (let asked = (if masks = [] then (case target of Some t \<Rightarrow> t | None \<Rightarrow> []) else masks)
           in foldl (\<lambda>n nick. srv_on_whois who nick n) n (filter (\<lambda>x. x \<noteq> []) (comma_list asked)))
      | ChannelMODE channel modes \<Rightarrow>
          if modes = [] then raw who (U ''324'') [nick_of who n, channel, U ''+''] n else n
      | UserMODE _ _ \<Rightarrow> n
      | other \<Rightarrow>
          (let verb = (case split_on (\<lambda>c. c = 32) (render other) of v # _ \<Rightarrow> v | [] \<Rightarrow> [])
           in numeric_args who ERR_UNKNOWNCOMMAND [verb, U ''Unknown command''] n))"

definition handle :: "(command \<Rightarrow> ustring) \<Rightarrow> nat \<Rightarrow> command \<Rightarrow> net \<Rightarrow> net" where
  "handle render who cmd n =
     (if \<not> hm_has (n_clients n) who then n
      else case cmd of
        CAP _ sub _ _ \<Rightarrow> srv_on_cap who sub n
      | NICK nick \<Rightarrow> srv_on_nick who nick n
      | USER user _ real \<Rightarrow> srv_on_user who user real n
      | PASS _ \<Rightarrow> n
      | PING token _ \<Rightarrow> srv_on_ping who token n
      | PONG _ _ \<Rightarrow> n
      | QUIT reason \<Rightarrow>
          close who (case reason of None \<Rightarrow> U ''Quit'' | Some r \<Rightarrow> truncate_bytes r TOPIC_LEN) n
      | command \<Rightarrow>
          if \<not> is_registered who n then numeric who ERR_NOTREGISTERED [U ''You have not registered''] n
          else registered_command render who command n)"

end
