(* ===== verification/Network_Inv.thy ===== *)
theory Network_Inv
  imports Network
begin

text \<open>
  The consistency of the server's indexes. \<open>net_ok\<close> says that the nick index and the connections
  agree, that membership is recorded the same way on both sides, that operators are members, that no
  room is empty, that whoever is registered has a nick and a user name, and that no banned nick is in
  use; every operation of theory \<open>Network\<close> keeps it.
\<close>

section \<open>Replies change nothing but the outbox and the log\<close>

definition quiet :: "net \<Rightarrow> net \<Rightarrow> bool" where
  "quiet n n' \<longleftrightarrow> n_server_name n' = n_server_name n \<and> n_network_name n' = n_network_name n
     \<and> n_version n' = n_version n \<and> n_clients n' = n_clients n \<and> n_nicks n' = n_nicks n
     \<and> n_rooms n' = n_rooms n \<and> n_motd n' = n_motd n \<and> n_banned n' = n_banned n
     \<and> n_observed n' = n_observed n \<and> n_now n' = n_now n"

lemma quiet_refl [simp]: "quiet n n"
  by (simp add: quiet_def)

lemma quiet_trans: "quiet a b \<Longrightarrow> quiet b c \<Longrightarrow> quiet a c"
  by (simp add: quiet_def)

lemma quiet_fields:
  assumes "quiet n n'"
  shows "n_server_name n' = n_server_name n" "n_network_name n' = n_network_name n"
    "n_version n' = n_version n" "n_clients n' = n_clients n" "n_nicks n' = n_nicks n"
    "n_rooms n' = n_rooms n" "n_motd n' = n_motd n" "n_banned n' = n_banned n"
    "n_observed n' = n_observed n" "n_now n' = n_now n"
  using assms by (simp_all add: quiet_def)

lemma quiet_foldl: "(\<And>n x. quiet n (f n x)) \<Longrightarrow> quiet n (foldl f n xs)"
  by (induction xs arbitrary: n) (auto intro: quiet_trans)

lemma quiet_emit: "quiet n (emit k n)"
  by (simp add: emit_def quiet_def)

lemma quiet_send: "quiet n (send who m n)"
  by (simp add: send_def quiet_def)

lemma quiet_send_each: "quiet n (send_each xs m skip n)"
  by (induction xs m skip n rule: send_each.induct) (auto intro: quiet_trans quiet_send)

lemma quiet_broadcast: "quiet n (broadcast key m skip n)"
  by (simp add: broadcast_def quiet_send_each split: option.splits)

lemma quiet_tell_loop: "quiet n (snd (tell_loop m xs told n))"
  by (induction m xs told n rule: tell_loop.induct) (auto intro: quiet_trans quiet_send)

lemma quiet_peers_loop: "quiet n (peers_loop m names told n)"
proof (induction m names told n rule: peers_loop.induct)
  case (2 m name names told n)
  show ?case
  proof (cases "hm_get (n_rooms n) name")
    case (Some r)
    obtain told' n' where loop: "tell_loop m (r_members r) told n = (told', n')" by fastforce
    have "quiet n n'" using quiet_tell_loop [of n m "r_members r" told] loop by simp
    with 2(2) [OF Some loop [symmetric] refl] Some loop show ?thesis
      by (auto intro: quiet_trans)
  qed (simp add: 2(1))
qed simp

lemma quiet_tell_peers: "quiet n (tell_peers who m incl n)"
  unfolding tell_peers_def
  by (auto intro: quiet_peers_loop quiet_trans [OF quiet_send] split: option.splits)

lemma quiet_numeric_args: "quiet n (numeric_args who r args n)"
  by (simp add: numeric_args_def quiet_send)

lemma quiet_numeric: "quiet n (numeric who r args n)"
  by (simp add: numeric_def quiet_numeric_args)

lemma quiet_raw: "quiet n (raw who verb args n)"
  by (simp add: raw_def quiet_send)

lemma quiet_send_motd: "quiet n (send_motd who n)"
  unfolding send_motd_def Let_def
  by (rule quiet_trans [OF quiet_trans [OF quiet_numeric quiet_foldl] quiet_numeric]) (rule quiet_numeric)

lemma quiet_send_welcome: "quiet n (send_welcome who n)"
  unfolding send_welcome_def Let_def
  by (intro quiet_trans [OF _ quiet_send_motd] quiet_trans [OF _ quiet_send]
      quiet_trans [OF _ quiet_numeric_args] quiet_trans [OF _ quiet_numeric] quiet_refl)

lemma quiet_send_topic: "quiet n (send_topic who key explicit n)"
  unfolding send_topic_def
  by (auto intro: quiet_trans [OF quiet_numeric_args quiet_numeric_args] quiet_numeric_args split: option.splits)

lemma quiet_send_names: "quiet n (send_names who name n)"
  unfolding send_names_def Let_def
  by (auto intro: quiet_trans [OF quiet_numeric_args quiet_numeric_args] quiet_numeric_args
      split: option.splits prod.splits)

lemma quiet_on_list: "quiet n (srv_on_list who only n)"
  unfolding srv_on_list_def Let_def
  by (rule quiet_trans [OF quiet_trans [OF quiet_numeric_args quiet_foldl] quiet_numeric])
    (auto simp: quiet_numeric_args split: option.splits)

lemma quiet_on_whois: "quiet n (srv_on_whois who nick n)"
  unfolding srv_on_whois_def Let_def
  by (auto intro!: quiet_trans [OF _ quiet_numeric_args] split: option.splits)

lemma quiet_ping: "quiet n (ping who n)"
  by (simp add: ping_def quiet_send)

lemma quiet_on_ping: "quiet n (srv_on_ping who token n)"
  by (simp add: srv_on_ping_def quiet_send)

lemmas quiet_ops = quiet_emit quiet_send quiet_send_each quiet_broadcast quiet_peers_loop quiet_tell_peers
  quiet_numeric_args quiet_numeric quiet_raw quiet_send_motd quiet_send_welcome quiet_send_topic
  quiet_send_names quiet_on_list quiet_on_whois quiet_ping quiet_on_ping quiet_tell_loop

lemmas [simp] = quiet_ops
lemmas [simp] = quiet_fields [OF quiet_emit] quiet_fields [OF quiet_send] quiet_fields [OF quiet_send_each]
  quiet_fields [OF quiet_broadcast] quiet_fields [OF quiet_tell_peers] quiet_fields [OF quiet_peers_loop]
  quiet_fields [OF quiet_tell_loop]
  quiet_fields [OF quiet_numeric_args] quiet_fields [OF quiet_numeric] quiet_fields [OF quiet_raw]
  quiet_fields [OF quiet_send_welcome] quiet_fields [OF quiet_send_topic] quiet_fields [OF quiet_send_names]

section \<open>The invariant\<close>

definition held_key :: "(nat \<rightharpoonup> client) \<Rightarrow> nat \<Rightarrow> ustring option" where
  "held_key clients who = map_option fold_name (Option.bind (clients who) cl_nick)"

definition nicks_agree :: "(nat \<rightharpoonup> client) \<Rightarrow> (ustring \<rightharpoonup> nat) \<Rightarrow> bool" where
  "nicks_agree clients nicks \<longleftrightarrow> (\<forall>key who. nicks key = Some who \<longleftrightarrow> held_key clients who = Some key)"

definition client_ok :: "ustring list \<Rightarrow> client \<Rightarrow> bool" where
  "client_ok banned c \<longleftrightarrow>
     (cl_registered c \<longrightarrow> cl_nick c \<noteq> None \<and> cl_user c \<noteq> None)
     \<and> (case cl_nick c of None \<Rightarrow> True | Some nick \<Rightarrow> valid_nick nick \<and> fold_name nick \<notin> set banned)
     \<and> distinct (cl_channels c)"

definition topic_ok :: "topic \<Rightarrow> bool" where
  "topic_ok t \<longleftrightarrow> t_text t \<noteq> [] \<and> blen (t_text t) \<le> TOPIC_LEN"

definition room_ok :: "ustring \<Rightarrow> room \<Rightarrow> bool" where
  "room_ok key r \<longleftrightarrow> fold_name (r_name r) = key \<and> valid_channel (r_name r)
     \<and> r_members r \<noteq> [] \<and> distinct (r_members r)
     \<and> distinct (r_operators r) \<and> set (r_operators r) \<subseteq> set (r_members r)
     \<and> (case r_topic r of None \<Rightarrow> True | Some t \<Rightarrow> topic_ok t)"

definition members_at :: "(ustring \<rightharpoonup> room) \<Rightarrow> ustring \<Rightarrow> nat list" where
  "members_at rooms key = (case rooms key of None \<Rightarrow> [] | Some r \<Rightarrow> r_members r)"

definition joined_by :: "(nat \<rightharpoonup> client) \<Rightarrow> nat \<Rightarrow> ustring list" where
  "joined_by clients who = (case clients who of None \<Rightarrow> [] | Some c \<Rightarrow> cl_channels c)"

definition members_agree :: "(nat \<rightharpoonup> client) \<Rightarrow> (ustring \<rightharpoonup> room) \<Rightarrow> bool" where
  "members_agree clients rooms \<longleftrightarrow>
     (\<forall>key who. who \<in> set (members_at rooms key) \<longleftrightarrow> key \<in> set (joined_by clients who))"

text \<open>Only registered connections are in rooms.\<close>

definition clients_ok :: "ustring list \<Rightarrow> (nat \<rightharpoonup> client) \<Rightarrow> bool" where
  "clients_ok banned clients \<longleftrightarrow>
     (\<forall>who c. clients who = Some c \<longrightarrow> client_ok banned c \<and> (cl_channels c \<noteq> [] \<longrightarrow> cl_registered c))"

definition rooms_ok :: "(ustring \<rightharpoonup> room) \<Rightarrow> bool" where
  "rooms_ok rooms \<longleftrightarrow> (\<forall>key r. rooms key = Some r \<longrightarrow> room_ok key r)"

definition motd_ok :: "ustring list \<Rightarrow> bool" where
  "motd_ok lines \<longleftrightarrow> lines \<noteq> [] \<and> list_all (\<lambda>l. l \<noteq> [] \<and> blen l \<le> 300 \<and> list_all (\<lambda>c. \<not> is_control c) l) lines"

text \<open>The ban list is a parameter, because a ban is recorded a moment before its holder is removed.\<close>

definition net_inv :: "ustring list \<Rightarrow> net \<Rightarrow> bool" where
  "net_inv banned n \<longleftrightarrow> hm_ok (n_clients n) \<and> hm_ok (n_nicks n) \<and> hm_ok (n_rooms n)
     \<and> nicks_agree (map_of (n_clients n)) (map_of (n_nicks n))
     \<and> clients_ok banned (map_of (n_clients n))
     \<and> rooms_ok (map_of (n_rooms n))
     \<and> members_agree (map_of (n_clients n)) (map_of (n_rooms n))
     \<and> motd_ok (n_motd n)"

definition net_ok :: "net \<Rightarrow> bool" where
  "net_ok n \<longleftrightarrow> distinct (n_banned n) \<and> net_inv (n_banned n) n"

lemma net_invD:
  assumes "net_inv banned n"
  shows "hm_ok (n_clients n)" "hm_ok (n_nicks n)" "hm_ok (n_rooms n)"
    "nicks_agree (map_of (n_clients n)) (map_of (n_nicks n))"
    "clients_ok banned (map_of (n_clients n))" "rooms_ok (map_of (n_rooms n))"
    "members_agree (map_of (n_clients n)) (map_of (n_rooms n))" "motd_ok (n_motd n)"
  using assms by (simp_all add: net_inv_def)

lemma net_okD:
  assumes "net_ok n"
  shows "hm_ok (n_clients n)" "hm_ok (n_nicks n)" "hm_ok (n_rooms n)" "distinct (n_banned n)"
    "nicks_agree (map_of (n_clients n)) (map_of (n_nicks n))"
    "clients_ok (n_banned n) (map_of (n_clients n))" "rooms_ok (map_of (n_rooms n))"
    "members_agree (map_of (n_clients n)) (map_of (n_rooms n))" "motd_ok (n_motd n)"
  using assms by (simp_all add: net_ok_def net_inv_def)

lemma net_ok_inv: "net_ok n \<Longrightarrow> net_inv (n_banned n) n"
  by (simp add: net_ok_def)

lemma net_inv_quiet: "quiet n n' \<Longrightarrow> net_inv banned n' \<longleftrightarrow> net_inv banned n"
  by (simp add: net_inv_def quiet_def)

lemma net_ok_quiet: "quiet n n' \<Longrightarrow> net_ok n' \<longleftrightarrow> net_ok n"
  by (simp add: net_ok_def net_inv_quiet quiet_fields)

lemma net_ok_out: "net_ok n \<Longrightarrow> quiet n n' \<Longrightarrow> net_ok n'"
  by (simp add: net_ok_quiet)

lemma net_ok_emit [simp]: "net_ok (emit k n) = net_ok n" by (rule net_ok_quiet) simp
lemma net_ok_send [simp]: "net_ok (send who m n) = net_ok n" by (rule net_ok_quiet) simp
lemma net_ok_broadcast [simp]: "net_ok (broadcast k m skip n) = net_ok n" by (rule net_ok_quiet) simp
lemma net_ok_numeric_args [simp]: "net_ok (numeric_args who r args n) = net_ok n" by (rule net_ok_quiet) simp
lemma net_ok_numeric [simp]: "net_ok (numeric who r args n) = net_ok n" by (rule net_ok_quiet) simp
lemma net_ok_raw [simp]: "net_ok (raw who verb args n) = net_ok n" by (rule net_ok_quiet) simp
lemma net_ok_tell_peers [simp]: "net_ok (tell_peers who m incl n) = net_ok n" by (rule net_ok_quiet) simp
lemma net_ok_welcome [simp]: "net_ok (send_welcome who n) = net_ok n" by (rule net_ok_quiet) simp
lemma net_ok_topic [simp]: "net_ok (send_topic who key e n) = net_ok n" by (rule net_ok_quiet) simp
lemma net_ok_names [simp]: "net_ok (send_names who name n) = net_ok n" by (rule net_ok_quiet) simp


section \<open>The changes the operations are made of\<close>


lemma held_key_upd: "held_key (C(who := c)) x = (if x = who then map_option fold_name (Option.bind c cl_nick) else held_key C x)"
  by (simp add: held_key_def)

lemma joined_by_upd: "joined_by (C(who := c)) x = (if x = who then (case c of None \<Rightarrow> [] | Some c \<Rightarrow> cl_channels c) else joined_by C x)"
  by (simp add: joined_by_def)

lemma members_at_upd: "members_at (R(key := r)) k = (if k = key then (case r of None \<Rightarrow> [] | Some r \<Rightarrow> r_members r) else members_at R k)"
  by (simp add: members_at_def)

lemma members_at_Some [simp]: "R key = Some r \<Longrightarrow> members_at R key = r_members r"
  by (simp add: members_at_def)

lemma joined_by_Some [simp]: "C who = Some c \<Longrightarrow> joined_by C who = cl_channels c"
  by (simp add: joined_by_def)

lemma members_agreeD: "members_agree C R \<Longrightarrow> who \<in> set (members_at R key) \<longleftrightarrow> key \<in> set (joined_by C who)"
  by (simp add: members_agree_def)

lemma nicks_agreeD: "nicks_agree C N \<Longrightarrow> N key = Some who \<longleftrightarrow> held_key C who = Some key"
  by (simp add: nicks_agree_def)

lemma nicks_agree_upd:
  "nicks_agree C N \<Longrightarrow> map_option fold_name (Option.bind c cl_nick) = held_key C who \<Longrightarrow> nicks_agree (C(who := c)) N"
  by (simp add: nicks_agree_def held_key_upd)

lemma members_agree_upd:
  "members_agree C R \<Longrightarrow> (case c of None \<Rightarrow> [] | Some c \<Rightarrow> cl_channels c) = joined_by C who \<Longrightarrow> members_agree (C(who := c)) R"
  by (simp add: members_agree_def joined_by_upd)

lemma net_inv_modify_client:
  assumes n: "net_inv banned n"
    and f: "\<And>c. hm_get (n_clients n) who = Some c \<Longrightarrow> client_ok banned c \<Longrightarrow>
        cl_nick (f c) = cl_nick c \<and> cl_channels (f c) = cl_channels c \<and> client_ok banned (f c)
        \<and> (cl_registered c \<longrightarrow> cl_registered (f c))"
  shows "net_inv banned (n\<lparr>n_clients := hm_modify who f (n_clients n)\<rparr>)"
proof (cases "hm_get (n_clients n) who")
  case None
  with n show ?thesis by (simp add: modify_absent)
next
  case (Some c)
  note ok = net_invD [OF n]
  have "client_ok banned c" using ok(5) Some by (simp add: clients_ok_def)
  note fc = f [OF Some this]
  have "clients_ok banned ((map_of (n_clients n))(who \<mapsto> f c))"
    using ok(5) Some fc unfolding clients_ok_def by auto
  then show ?thesis
    using ok Some fc
    by (simp add: net_inv_def map_simps nicks_agree_upd members_agree_upd held_key_def joined_by_def)
qed

lemma net_ok_modify_client:
  assumes "net_ok n"
    and "\<And>c. hm_get (n_clients n) who = Some c \<Longrightarrow> client_ok (n_banned n) c \<Longrightarrow>
        cl_nick (f c) = cl_nick c \<and> cl_channels (f c) = cl_channels c \<and> client_ok (n_banned n) (f c)
        \<and> (cl_registered c \<longrightarrow> cl_registered (f c))"
  shows "net_ok (n\<lparr>n_clients := hm_modify who f (n_clients n)\<rparr>)"
  using assms by (simp add: net_ok_def net_inv_modify_client)

lemma net_ok_claim:
  assumes n: "net_ok n" and c: "hm_get (n_clients n) who = Some c"
    and valid: "valid_nick nick" "fold_name nick \<notin> set (n_banned n)"
    and free: "hm_get (n_nicks n) (fold_name nick) = None \<or> hm_get (n_nicks n) (fold_name nick) = Some who"
  shows "net_ok (claim_nick who nick n)"
proof -
  note ok = net_okD [OF n]
  let ?C = "(map_of (n_clients n))(who \<mapsto> c\<lparr>cl_nick := Some nick\<rparr>)"
  let ?F = "case cl_nick c of Some old \<Rightarrow> (map_of (n_nicks n))(fold_name old := None) | None \<Rightarrow> hm_get (n_nicks n)"
  have agree: "hm_get (n_nicks n) key = Some x \<longleftrightarrow> held_key (map_of (n_clients n)) x = Some key" for key x
    using ok(5) by (simp add: nicks_agree_def)
  have freed: "?F key = Some x \<longleftrightarrow> x \<noteq> who \<and> held_key (map_of (n_clients n)) x = Some key" for key x
  proof (cases "cl_nick c")
    case None
    with c have "held_key (map_of (n_clients n)) who = None" by (simp add: held_key_def)
    with None agree [of key x] show ?thesis by (cases "x = who") simp_all
  next
    case (Some old)
    with c have "held_key (map_of (n_clients n)) who = Some (fold_name old)" by (simp add: held_key_def)
    with Some agree [of key x] agree [of "fold_name old" who] show ?thesis
      by (cases "x = who"; cases "key = fold_name old") simp_all
  qed
  have "nicks_agree ?C (?F(fold_name nick \<mapsto> who))"
    unfolding nicks_agree_def
  proof (intro allI)
    fix key x
    show "(?F(fold_name nick \<mapsto> who)) key = Some x \<longleftrightarrow> held_key ?C x = Some key"
      using freed [of key x] free agree [of "fold_name nick" x]
      by (cases "x = who"; cases "key = fold_name nick") (auto simp: held_key_upd)
  qed
  moreover have "clients_ok (n_banned n) ?C"
    using ok(6) c valid unfolding clients_ok_def client_ok_def by auto
  ultimately show ?thesis
    using ok c
    by (cases "cl_nick c")
      (simp_all add: net_ok_def net_inv_def claim_nick_def map_simps members_agree_upd joined_by_def)
qed

lemma net_ok_connect:
  assumes n: "net_ok n" and fresh: "hm_get (n_clients n) who = None"
  shows "net_ok (connect who n)"
proof -
  note ok = net_okD [OF n]
  have "clients_ok (n_banned n) ((map_of (n_clients n))(who \<mapsto> new_client (n_now n)))"
    using ok(6) unfolding clients_ok_def by (simp add: new_client_def client_ok_def)
  then show ?thesis
    using ok fresh
    by (simp add: net_ok_def net_inv_def connect_def map_simps Let_def nicks_agree_upd members_agree_upd
        held_key_def joined_by_def new_client_def)
qed

text \<open>Joining and leaving are changes of one room and one connection together.\<close>

lemma net_ok_room_client:
  assumes n: "net_ok n" and c: "hm_get (n_clients n) who = Some c"
    and rooms: "hm_ok rooms" "map_of rooms = (map_of (n_rooms n))(key := r)"
    and r: "\<And>r'. r = Some r' \<Longrightarrow> room_ok key r'"
    and f: "cl_nick (f c) = cl_nick c" "client_ok (n_banned n) (f c)" "cl_registered (f c)"
    and others: "\<And>x. x \<noteq> who \<Longrightarrow>
        x \<in> set (case r of None \<Rightarrow> [] | Some r \<Rightarrow> r_members r) \<longleftrightarrow> x \<in> set (members_at (map_of (n_rooms n)) key)"
    and here: "\<And>k. k \<noteq> key \<Longrightarrow> k \<in> set (cl_channels (f c)) \<longleftrightarrow> k \<in> set (cl_channels c)"
    and both: "who \<in> set (case r of None \<Rightarrow> [] | Some r \<Rightarrow> r_members r) \<longleftrightarrow> key \<in> set (cl_channels (f c))"
  shows "net_ok (n\<lparr>n_rooms := rooms, n_clients := hm_modify who f (n_clients n)\<rparr>)"
proof -
  note ok = net_okD [OF n]
  let ?C = "(map_of (n_clients n))(who \<mapsto> f c)" and ?R = "(map_of (n_rooms n))(key := r)"
  have agree: "x \<in> set (members_at (map_of (n_rooms n)) k) \<longleftrightarrow> k \<in> set (joined_by (map_of (n_clients n)) x)" for k x
    using ok(8) by (simp add: members_agree_def)
  have joined: "joined_by (map_of (n_clients n)) who = cl_channels c" using c by (simp add: joined_by_def)
  have "x \<in> set (members_at ?R k) \<longleftrightarrow> k \<in> set (joined_by ?C x)" for k x
    using agree [of x k] others [of x] here [of k] both joined
    by (cases "x = who"; cases "k = key") (simp_all add: members_at_upd joined_by_upd)
  then have "members_agree ?C ?R" by (simp add: members_agree_def)
  moreover have "clients_ok (n_banned n) ?C"
    using ok(6) f unfolding clients_ok_def by simp
  moreover have "rooms_ok ?R" using ok(7) r unfolding rooms_ok_def by auto
  moreover have "nicks_agree ?C (map_of (n_nicks n))"
    using ok(5) c f by (simp add: nicks_agree_upd held_key_def)
  ultimately show ?thesis using ok rooms c by (simp add: net_ok_def net_inv_def map_simps)
qed

lemma registered_client: "is_registered who n \<Longrightarrow> \<exists>c. hm_get (n_clients n) who = Some c \<and> cl_registered c"
  by (simp add: is_registered_def split: option.splits)

lemma net_ok_enter:
  assumes n: "net_ok n" and reg: "is_registered who n" and name: "valid_channel name"
    and out: "\<not> in_room who (fold_name name) n"
  shows "net_ok (enter_room who name n)"
proof -
  note ok = net_okD [OF n]
  obtain c where c: "hm_get (n_clients n) who = Some c" "cl_registered c"
    using registered_client [OF reg] by blast
  let ?key = "fold_name name"
  let ?r = "case hm_get (n_rooms n) ?key of
      Some r \<Rightarrow> r\<lparr>r_members := hs_insert who (r_members r)\<rparr>
    | None \<Rightarrow> \<lparr>r_name = name, r_topic = None, r_members = [who], r_operators = [who]\<rparr>"
  let ?f = "\<lambda>c. c\<lparr>cl_channels := hs_insert ?key (cl_channels c)\<rparr>"
  have cok: "client_ok (n_banned n) c" using ok(6) c by (simp add: clients_ok_def)
  have "net_ok (n\<lparr>n_rooms := hm_insert ?key ?r (n_rooms n), n_clients := hm_modify who ?f (n_clients n)\<rparr>)"
  proof (rule net_ok_room_client [OF n c(1), where key = ?key and r = "Some ?r"])
    show "room_ok ?key r'" if "Some ?r = Some r'" for r'
    proof (cases "hm_get (n_rooms n) ?key")
      case (Some r)
      then have "room_ok ?key r" using ok(7) by (simp add: rooms_ok_def)
      with that Some show ?thesis by (auto simp: room_ok_def)
    qed (use that name in \<open>auto simp: room_ok_def\<close>)
  next
    fix x assume "x \<noteq> who"
    then show "x \<in> set (case Some ?r of None \<Rightarrow> [] | Some r \<Rightarrow> r_members r)
        \<longleftrightarrow> x \<in> set (members_at (map_of (n_rooms n)) ?key)"
      by (cases "hm_get (n_rooms n) ?key") (auto simp: members_at_def)
  next
    show "who \<in> set (case Some ?r of None \<Rightarrow> [] | Some r \<Rightarrow> r_members r)
        \<longleftrightarrow> ?key \<in> set (cl_channels (?f c))"
      by (cases "hm_get (n_rooms n) ?key") auto
  qed (use ok cok c in \<open>auto simp: map_simps client_ok_def\<close>)
  then show ?thesis by (simp add: enter_room_def Let_def)
qed

lemma net_ok_leave:
  assumes n: "net_ok n" and in_room: "in_room who key n"
  shows "net_ok (leave_room key who n)"
proof -
  note ok = net_okD [OF n]
  obtain r where r: "hm_get (n_rooms n) key = Some r" "who \<in> set (r_members r)"
    using in_room by (auto simp: in_room_def split: option.splits)
  then have "key \<in> set (joined_by (map_of (n_clients n)) who)"
    using members_agreeD [OF ok(8), of who key] by simp
  then obtain c where c: "hm_get (n_clients n) who = Some c" "key \<in> set (cl_channels c)"
    by (cases "hm_get (n_clients n) who") (auto simp: joined_by_def)
  have cok: "client_ok (n_banned n) c" "cl_registered c"
    using ok(6) c by (fastforce simp: clients_ok_def)+
  have rok: "room_ok key r" using ok(7) r by (simp add: rooms_ok_def)
  let ?r' = "r\<lparr>r_members := removeAll who (r_members r), r_operators := removeAll who (r_operators r)\<rparr>"
  let ?rooms = "if r_members ?r' = [] then hm_remove key (n_rooms n) else hm_insert key ?r' (n_rooms n)"
  let ?opt = "if r_members ?r' = [] then None else Some ?r'"
  have "net_ok (n\<lparr>n_rooms := ?rooms,
      n_clients := hm_modify who (\<lambda>c. c\<lparr>cl_channels := removeAll key (cl_channels c)\<rparr>) (n_clients n)\<rparr>)"
  proof (rule net_ok_room_client [OF n c(1), where key = key and r = ?opt])
    show "room_ok key r''" if "?opt = Some r''" for r''
      using that rok by (auto simp: room_ok_def distinct_removeAll split: if_splits)
  next
    fix x assume "x \<noteq> who"
    then have "x \<in> set (removeAll who (r_members r)) \<longleftrightarrow> x \<in> set (r_members r)" by simp
    then show "x \<in> set (case ?opt of None \<Rightarrow> [] | Some r \<Rightarrow> r_members r)
        \<longleftrightarrow> x \<in> set (members_at (map_of (n_rooms n)) key)"
      using r by (auto simp: members_at_def simp del: set_removeAll)
  qed (use ok cok c r in \<open>auto simp: map_simps client_ok_def distinct_removeAll\<close>)
  then show ?thesis using r by (simp add: leave_room_def Let_def)
qed

lemma net_ok_modify_room:
  assumes n: "net_ok n"
    and f: "\<And>r. hm_get (n_rooms n) key = Some r \<Longrightarrow> room_ok key r \<Longrightarrow>
        room_ok key (f r) \<and> set (r_members (f r)) = set (r_members r)"
  shows "net_ok (n\<lparr>n_rooms := hm_modify key f (n_rooms n)\<rparr>)"
proof (cases "hm_get (n_rooms n) key")
  case None
  with n show ?thesis by (simp add: modify_absent)
next
  case (Some r)
  note ok = net_okD [OF n]
  have "room_ok key r" using ok(7) Some by (simp add: rooms_ok_def)
  note fr = f [OF Some this]
  have "rooms_ok ((map_of (n_rooms n))(key \<mapsto> f r))" using ok(7) fr by (simp add: rooms_ok_def)
  moreover have "members_agree (map_of (n_clients n)) ((map_of (n_rooms n))(key \<mapsto> f r))"
    using members_agreeD [OF ok(8)] fr Some
    by (auto simp: members_agree_def members_at_upd members_agreeD [OF ok(8), of _ key, symmetric])
  ultimately show ?thesis using ok Some by (simp add: net_ok_def net_inv_def map_simps)
qed

lemma find_boundary_le: "find_boundary s e \<le> e"
  by (induction e) (auto simp: le_SucI)

lemma find_boundary_boundary: "is_char_boundary s (find_boundary s e)"
  by (induction e) auto

lemma truncate_slice: "\<exists>t. slice_to s (find_boundary s e) = Some t"
  using find_boundary_boundary [of s e] by (auto simp: is_char_boundary_def)

lemma truncate_bytes_blen: "blen (truncate_bytes s bound) \<le> bound"
proof -
  obtain t where t: "slice_to s (find_boundary s bound) = Some t" using truncate_slice by blast
  from slice_to_Some [OF t] find_boundary_le [of s bound] t show ?thesis by (simp add: truncate_bytes_def)
qed

lemma truncate_bytes_prefix: "prefix (truncate_bytes s bound) s"
proof -
  obtain t where t: "slice_to s (find_boundary s bound) = Some t" using truncate_slice by blast
  from slice_to_Some [OF t] t show ?thesis by (simp add: truncate_bytes_def)
qed

lemma net_ok_set_topic:
  assumes "net_ok n" "blen body \<le> TOPIC_LEN"
  shows "net_ok (set_topic key body setter n)"
  unfolding set_topic_def
  using assms by (intro net_ok_modify_room) (auto simp: room_ok_def topic_ok_def)

section \<open>Disconnection\<close>

definition drop_member :: "nat \<Rightarrow> room \<Rightarrow> room" where
  "drop_member who r = r\<lparr>r_members := removeAll who (r_members r), r_operators := removeAll who (r_operators r)\<rparr>"

lemma drop_member_idem [simp]: "drop_member who (drop_member who r) = drop_member who r"
  by (simp add: drop_member_def)

lemma quit_loop_effect:
  "n_clients (quit_loop who m names told n) = n_clients n
   \<and> n_nicks (quit_loop who m names told n) = n_nicks n
   \<and> n_banned (quit_loop who m names told n) = n_banned n
   \<and> n_motd (quit_loop who m names told n) = n_motd n
   \<and> n_observed (quit_loop who m names told n) = n_observed n
   \<and> n_server_name (quit_loop who m names told n) = n_server_name n
   \<and> n_log (quit_loop who m names told n) = n_log n
   \<and> (hm_ok (n_rooms n) \<longrightarrow> hm_ok (n_rooms (quit_loop who m names told n)))
   \<and> map_of (n_rooms (quit_loop who m names told n)) =
       (\<lambda>k. if k \<in> set names then map_option (drop_member who) (map_of (n_rooms n) k) else map_of (n_rooms n) k)"
proof (induction who m names told n rule: quit_loop.induct)
  case (2 who m name names told n)
  show ?case
  proof (cases "hm_get (n_rooms n) name")
    case None
    with 2(1) [OF None] show ?thesis by (auto simp: fun_eq_iff)
  next
    case (Some r)
    let ?n1 = "n\<lparr>n_rooms := hm_insert name (drop_member who r) (n_rooms n)\<rparr>"
    obtain told' n' where loop: "tell_loop m (r_members (drop_member who r)) told ?n1 = (told', n')" by fastforce
    have q: "quiet ?n1 n'" using quiet_tell_loop [of ?n1 m "r_members (drop_member who r)" told] loop by simp
    have logs: "n_log n' = n_log n"
    proof -
      have "n_log (snd (tell_loop m xs told n)) = n_log n" for xs told n
        by (induction m xs told n rule: tell_loop.induct) (auto simp: send_def)
      from this [of "r_members (drop_member who r)" told ?n1] loop show ?thesis by simp
    qed
    have "quit_loop who m (name # names) told n = quit_loop who m names told' n'"
      using Some loop by (simp add: drop_member_def Let_def)
    moreover note 2(2) [OF Some, of "drop_member who r" "(told', n')" told' n']
    ultimately show ?thesis
      using loop quiet_fields [OF q] Some logs
      by (auto simp: drop_member_def map_simps fun_eq_iff)
  qed
qed simp

text \<open>What is left of a room, if anything, when one connection is taken out of it.\<close>

definition room_without :: "nat \<Rightarrow> room \<Rightarrow> room option" where
  "room_without who r = (if r_members (drop_member who r) = [] then None else Some (drop_member who r))"

lemma drop_member_absent: "room_ok key r \<Longrightarrow> who \<notin> set (r_members r) \<Longrightarrow> drop_member who r = r"
  by (cases r) (auto simp: drop_member_def room_ok_def intro!: removeAll_id)

lemma room_without_ok: "room_ok key r \<Longrightarrow> room_without who r = Some r' \<Longrightarrow> room_ok key r'"
  by (auto simp: room_without_def room_ok_def drop_member_def distinct_removeAll split: if_splits)

lemma disconnect_effect:
  assumes n: "net_inv banned n" and c: "hm_get (n_clients n) who = Some c"
  shows "n_clients (disconnect who reason n) = hm_remove who (n_clients n)"
    and "n_nicks (disconnect who reason n) =
      (case cl_nick c of Some nick \<Rightarrow> hm_remove (fold_name nick) (n_nicks n) | None \<Rightarrow> n_nicks n)"
    and "n_banned (disconnect who reason n) = n_banned n" "n_motd (disconnect who reason n) = n_motd n"
    and "hm_ok (n_rooms (disconnect who reason n))"
    and "map_of (n_rooms (disconnect who reason n)) k = Option.bind (map_of (n_rooms n) k) (room_without who)"
proof -
  note ok = net_invD [OF n]
  define said where "said = (case cl_quit_reason c of Some q \<Rightarrow> q | None \<Rightarrow> reason)"
  define n1 where "n1 = n\<lparr>n_clients := hm_remove who (n_clients n),
      n_nicks := (case cl_nick c of Some nick \<Rightarrow> hm_remove (fold_name nick) (n_nicks n) | None \<Rightarrow> n_nicks n)\<rparr>"
  define n2 where "n2 = (case cl_nick c of
      Some nick \<Rightarrow> emit (if cl_registered c then EvQuit nick said else EvDropped who said) n1
    | None \<Rightarrow> emit (EvDropped who said) n1)"
  define n3 where "n3 = quit_loop who \<lparr>msg_prefix = Some (client_prefix c), msg_command = QUIT (Some said)\<rparr>
      (cl_channels c) [] n2"
  have res: "disconnect who reason n = n3\<lparr>n_rooms := filter (\<lambda>(k, r). r_members r \<noteq> []) (n_rooms n3)\<rparr>"
    unfolding disconnect_def n3_def n2_def n1_def said_def by (simp only: c option.case Let_def)
  have q: "quiet n1 n2" by (simp add: n2_def split: option.splits)
  note eff = quit_loop_effect [of who "\<lparr>msg_prefix = Some (client_prefix c), msg_command = QUIT (Some said)\<rparr>"
      "cl_channels c" "[]" n2, folded n3_def]
  show "n_clients (disconnect who reason n) = hm_remove who (n_clients n)"
    "n_nicks (disconnect who reason n) =
      (case cl_nick c of Some nick \<Rightarrow> hm_remove (fold_name nick) (n_nicks n) | None \<Rightarrow> n_nicks n)"
    "n_banned (disconnect who reason n) = n_banned n" "n_motd (disconnect who reason n) = n_motd n"
    using eff quiet_fields [OF q] by (simp_all add: res n1_def)
  have ok3: "hm_ok (n_rooms n3)" using eff quiet_fields [OF q] ok(3) by (simp add: n1_def)
  then show "hm_ok (n_rooms (disconnect who reason n))"
    by (simp add: res distinct_map_filter)
  have get3: "map_of (n_rooms n3) k = map_option (drop_member who) (map_of (n_rooms n) k)"
  proof (cases "k \<in> set (cl_channels c)")
    case True
    then show ?thesis using eff quiet_fields [OF q] by (simp add: n1_def)
  next
    case False
    then have "who \<notin> set (members_at (map_of (n_rooms n)) k)"
      using members_agreeD [OF ok(7), of who k] c by simp
    then have "drop_member who r = r" if "map_of (n_rooms n) k = Some r" for r
      using that ok(6) drop_member_absent [of k r who] by (simp add: rooms_ok_def)
    with False show ?thesis
      using eff quiet_fields [OF q] by (cases "map_of (n_rooms n) k") (simp_all add: n1_def)
  qed
  show "map_of (n_rooms (disconnect who reason n)) k = Option.bind (map_of (n_rooms n) k) (room_without who)"
    using get3 map_of_filter_key [OF ok3, of "\<lambda>(k, r). r_members r \<noteq> []" k]
    by (cases "map_of (n_rooms n) k") (simp_all add: res room_without_def)
qed

lemma net_inv_disconnect:
  assumes n: "net_inv banned n"
  shows "net_inv banned (disconnect who reason n)"
proof (cases "hm_get (n_clients n) who")
  case None
  with n show ?thesis by (simp add: disconnect_def)
next
  case (Some c)
  note ok = net_invD [OF n] and eff = disconnect_effect [OF n Some, of reason]
  let ?d = "disconnect who reason n"
  have C: "map_of (n_clients ?d) = (map_of (n_clients n))(who := None)" by (simp add: eff map_simps)
  have agree: "map_of (n_nicks n) key = Some x \<longleftrightarrow> held_key (map_of (n_clients n)) x = Some key" for key x
    using ok(4) by (simp add: nicks_agree_def)
  have "map_of (n_nicks ?d) key = Some x \<longleftrightarrow> held_key (map_of (n_clients ?d)) x = Some key" for key x
  proof (cases "cl_nick c")
    case None
    with Some have "held_key (map_of (n_clients n)) who = None" by (simp add: held_key_def)
    with None agree [of key x] show ?thesis
      by (cases "x = who") (simp_all add: eff(2) C held_key_upd)
  next
    case nick: (Some nick)
    then have "held_key (map_of (n_clients n)) who = Some (fold_name nick)"
      using Some by (simp add: held_key_def)
    with nick agree [of key x] agree [of "fold_name nick" who] show ?thesis
      by (cases "x = who"; cases "key = fold_name nick") (simp_all add: eff(2) C held_key_upd map_simps)
  qed
  then have "nicks_agree (map_of (n_clients ?d)) (map_of (n_nicks ?d))" by (simp add: nicks_agree_def)
  moreover have "rooms_ok (map_of (n_rooms ?d))"
    using ok(6) room_without_ok unfolding rooms_ok_def
    by (simp add: eff Option.bind_eq_Some_conv) blast
  moreover have "x \<in> set (members_at (map_of (n_rooms ?d)) key) \<longleftrightarrow> key \<in> set (joined_by (map_of (n_clients ?d)) x)"
    for key x
  proof -
    have "set (members_at (map_of (n_rooms ?d)) key) = set (members_at (map_of (n_rooms n)) key) - {who}"
      by (cases "map_of (n_rooms n) key")
        (auto simp: members_at_def eff room_without_def drop_member_def simp flip: set_removeAll)
    then show ?thesis
      using members_agreeD [OF ok(7), of x key] by (simp add: C joined_by_upd)
  qed
  then have "members_agree (map_of (n_clients ?d)) (map_of (n_rooms ?d))" by (simp add: members_agree_def)
  moreover have "clients_ok banned (map_of (n_clients ?d))"
    using ok(5) by (simp add: clients_ok_def C)
  moreover have "hm_ok (n_nicks ?d)" using ok(2) by (cases "cl_nick c") (simp_all add: eff map_simps)
  ultimately show ?thesis
    using ok eff(5) by (simp add: net_inv_def eff(1,3,4) map_simps)
qed

lemma disconnect_banned: "net_inv banned n \<Longrightarrow> n_banned (disconnect who reason n) = n_banned n"
proof (cases "hm_get (n_clients n) who")
  case (Some c)
  assume "net_inv banned n"
  from disconnect_effect(3) [OF this Some] show ?thesis .
qed (simp add: disconnect_def)

lemma disconnect_clients:
  assumes "net_inv banned n"
  shows "map_of (n_clients (disconnect who reason n)) = (map_of (n_clients n))(who := None)"
proof (cases "hm_get (n_clients n) who")
  case (Some c)
  from disconnect_effect(1) [OF assms Some] show ?thesis by (simp add: map_simps)
qed (simp add: disconnect_def fun_upd_idem)

lemma net_ok_disconnect: "net_ok n \<Longrightarrow> net_ok (disconnect who reason n)"
  using disconnect_banned [of "n_banned n" n who reason] net_inv_disconnect [of "n_banned n" n who reason]
  by (simp add: net_ok_def)

lemma net_inv_close: "net_inv banned n \<Longrightarrow> net_inv banned (close who reason n)"
  unfolding close_def Let_def
  by (intro net_inv_disconnect net_inv_modify_client) (auto simp: client_ok_def net_inv_quiet [OF quiet_send])

lemma close_prepared:
  "net_inv banned n \<Longrightarrow> net_inv banned ((send who m n)\<lparr>n_clients := hm_modify who (\<lambda>c. c\<lparr>cl_quit_reason := r\<rparr>)
    (n_clients (send who m n))\<rparr>)"
  by (rule net_inv_modify_client) (auto simp: client_ok_def net_inv_quiet [OF quiet_send])

lemma close_effect:
  assumes "net_inv banned n"
  shows "n_banned (close who reason n) = n_banned n"
    and "map_of (n_clients (close who reason n)) = (map_of (n_clients n))(who := None)"
  unfolding close_def Let_def
  by (simp_all only: disconnect_banned [OF close_prepared [OF assms]] disconnect_clients [OF close_prepared [OF assms]])
    (simp_all add: map_simps)

lemma net_ok_close: "net_ok n \<Longrightarrow> net_ok (close who reason n)"
  unfolding close_def Let_def
  by (intro net_ok_disconnect net_ok_modify_client) (auto simp: client_ok_def)

section \<open>Every operation keeps the invariant\<close>

lemma net_ok_try_register:
  assumes "net_ok n"
  shows "net_ok (try_register who n)"
proof (cases "hm_get (n_clients n) who")
  case (Some c)
  let ?n1 = "n\<lparr>n_clients := hm_modify who (\<lambda>c. c\<lparr>cl_registered := True\<rparr>) (n_clients n)\<rparr>"
  have "net_ok ?n1" if "cl_nick c \<noteq> None" "cl_user c \<noteq> None"
    using assms Some that by (intro net_ok_modify_client) (auto simp: client_ok_def)
  with Some assms show ?thesis by (simp add: try_register_def Let_def)
qed (simp add: try_register_def assms)

lemma net_ok_on_cap: "net_ok n \<Longrightarrow> net_ok (srv_on_cap who sub n)"
  unfolding srv_on_cap_def Let_def
  by (cases sub) (auto intro!: net_ok_try_register net_ok_modify_client simp: client_ok_def)

lemma net_ok_on_nick:
  assumes n: "net_ok n" and c: "hm_has (n_clients n) who"
  shows "net_ok (srv_on_nick who nick n)"
proof -
  obtain c where c: "hm_get (n_clients n) who = Some c" using c by blast
  have claim: "net_ok (claim_nick who (trim nick) n)"
    if "valid_nick (trim nick)" "fold_name (trim nick) \<notin> set (n_banned n)"
      "\<not> (case hm_get (n_nicks n) (fold_name (trim nick)) of Some holder \<Rightarrow> holder \<noteq> who | None \<Rightarrow> False)"
    using n c that by (intro net_ok_claim) (auto split: option.splits)
  then show ?thesis
    unfolding srv_on_nick_def Let_def using n
    by (auto simp: net_ok_try_register split: bool.splits option.splits)
qed

lemma net_ok_on_user: "net_ok n \<Longrightarrow> net_ok (srv_on_user who user real n)"
  unfolding srv_on_user_def
  by (auto intro!: net_ok_try_register net_ok_modify_client simp: client_ok_def)

lemma net_ok_on_join:
  assumes "net_ok n" "is_registered who n"
  shows "net_ok (srv_on_join who name n)"
  using assms net_ok_enter by (simp add: srv_on_join_def Let_def)

lemma in_room_quiet: "quiet n n' \<Longrightarrow> in_room who key n' = in_room who key n"
  by (simp add: in_room_def quiet_def)

lemma net_ok_on_part: "net_ok n \<Longrightarrow> net_ok (srv_on_part who name reason n)"
  unfolding srv_on_part_def Let_def
  by (auto intro!: net_ok_leave simp: in_room_def split: option.splits)

lemma net_ok_on_topic: "net_ok n \<Longrightarrow> net_ok (srv_on_topic who name topic n)"
  unfolding srv_on_topic_def Let_def
  by (auto intro!: net_ok_set_topic simp: truncate_bytes_blen split: option.splits)

lemma net_ok_on_message: "net_ok n \<Longrightarrow> net_ok (srv_on_message who target body notice n)"
proof -
  assume "net_ok n"
  then have "net_ok (n\<lparr>n_messages_total := n_messages_total n + 1\<rparr>)" by (simp add: net_ok_def net_inv_def)
  with \<open>net_ok n\<close> show ?thesis unfolding srv_on_message_def Let_def by (auto split: option.splits)
qed

lemma net_ok_kick_member:
  "net_ok n \<Longrightarrow> in_room victim key n \<Longrightarrow> net_ok (kick_member key victim by_whom reason n)"
  unfolding kick_member_def Let_def
  by (auto intro!: net_ok_leave simp: in_room_def split: option.splits)

lemma net_ok_on_kick: "net_ok n \<Longrightarrow> net_ok (srv_on_kick who name nick reason n)"
  unfolding srv_on_kick_def Let_def
  by (auto intro!: net_ok_kick_member simp: in_room_def split: option.splits)

text \<open>Registration survives what a registered client can ask for, so a list of targets goes through.\<close>

lemma modify_registered:
  "(\<And>c. cl_registered (f c) = cl_registered c) \<Longrightarrow>
    is_registered who (n\<lparr>n_rooms := rooms, n_clients := hm_modify x f (n_clients n)\<rparr>) = is_registered who n"
  by (auto simp: is_registered_def map_simps split: option.splits)

lemma is_registered_quiet: "quiet n n' \<Longrightarrow> is_registered who n' = is_registered who n"
  by (simp add: is_registered_def quiet_def)

lemma enter_registered: "is_registered who (enter_room x name n) = is_registered who n"
  unfolding enter_room_def Let_def by (rule modify_registered) simp

lemma join_registered: "is_registered who (srv_on_join x name n) = is_registered who n"
  by (simp add: srv_on_join_def Let_def enter_registered is_registered_quiet [OF quiet_send_names]
      is_registered_quiet [OF quiet_send_topic] is_registered_quiet [OF quiet_emit]
      is_registered_quiet [OF quiet_broadcast] is_registered_quiet [OF quiet_send]
      is_registered_quiet [OF quiet_numeric_args])

lemma net_ok_joins:
  "net_ok n \<Longrightarrow> is_registered who n \<Longrightarrow> net_ok (foldl (\<lambda>n t. srv_on_join who t n) n ts)"
  by (induction ts arbitrary: n) (simp_all add: net_ok_on_join join_registered)

lemma net_ok_foldl: "net_ok n \<Longrightarrow> (\<And>n x. net_ok n \<Longrightarrow> net_ok (f n x)) \<Longrightarrow> net_ok (foldl f n xs)"
  by (induction xs arbitrary: n) simp_all

lemma net_ok_kick_loop: "net_ok n \<Longrightarrow> net_ok (kick_loop who channels reason i nicks n)"
  by (induction who channels reason i nicks n rule: kick_loop.induct)
    (auto simp: net_ok_on_kick split: option.splits)

lemma net_ok_registered_command:
  assumes "net_ok n" "is_registered who n"
  shows "net_ok (registered_command render who cmd n)"
proof -
  have parts: "net_ok (foldl (\<lambda>n t. srv_on_part who t reason n) n ts)" for reason ts
    using assms(1) by (rule net_ok_foldl) (rule net_ok_on_part)
  have names: "net_ok (foldl (\<lambda>n t. send_names who t n) n ts)" for ts
    using assms(1) by (rule net_ok_foldl) simp
  have whois: "net_ok (foldl (\<lambda>n t. srv_on_whois who t n) n ts)" for ts
    using assms(1) by (rule net_ok_foldl) (rule net_ok_out [OF _ quiet_on_whois])
  show ?thesis
    using assms parts names whois net_ok_joins net_ok_kick_loop net_ok_on_message net_ok_on_topic
      net_ok_out [OF assms(1) quiet_send_motd] net_ok_out [OF assms(1) quiet_on_list]
    by (cases cmd) (simp_all add: registered_command_def Let_def split: option.splits)
qed

lemma net_ok_handle:
  assumes "net_ok n"
  shows "net_ok (handle render who cmd n)"
proof (cases "hm_has (n_clients n) who")
  case True
  with assms show ?thesis
    using net_ok_registered_command [OF assms] net_ok_out [OF assms quiet_on_ping]
    by (cases cmd) (simp_all add: handle_def net_ok_on_cap net_ok_on_nick net_ok_on_user net_ok_close)
qed (simp add: handle_def assms)

lemma default_motd_ok: "motd_ok default_motd"
  by (simp add: motd_ok_def default_motd_def is_control_def utf8_len_def)

lemma new_net_ok: "net_ok (new_net server network version now)"
  by (simp add: net_ok_def net_inv_def new_net_def nicks_agree_def members_agree_def clients_ok_def rooms_ok_def
      held_key_def members_at_def joined_by_def default_motd_ok)

end
