(* ===== verification/Network_Admin.thy ===== *)
theory Network_Admin
  imports Network_Inv "HOL-Library.Option_ord"
begin

text \<open>
  Model of \<^verbatim>\<open>core/ddirc-server/src/state/admin.rs\<close>: the operator's commands applied to the network, and
  the snapshot shown to the operator. A command gives \<open>Inr\<close> the sentence that reports success or
  \<open>Inl\<close> the refusal, next to the new state. \<open>close\<close>, which is in the same source file, is in theory
  \<open>Network\<close> because a client's QUIT uses it too.
\<close>

section \<open>Commands\<close>

definition MOTD_LINE_LEN :: nat where "MOTD_LINE_LEN = 300"

definition server_prefix :: "net \<Rightarrow> prefix_src" where
  "server_prefix n = ServerName (n_server_name n)"

definition server_notice :: "ustring \<Rightarrow> ustring \<Rightarrow> net \<Rightarrow> message" where
  "server_notice target body n =
     \<lparr>msg_prefix = Some (Nickname (n_server_name n) (U ''server'') HOST), msg_command = NOTICE target body\<rparr>"

definition registered :: "ustring \<Rightarrow> net \<Rightarrow> ustring + nat" where
  "registered nick n =
     (case hm_get (n_nicks n) (fold_name nick) of
        Some who \<Rightarrow> if is_registered who n then Inr who else Inl (U ''no such nick: '' @ nick)
      | None \<Rightarrow> Inl (U ''no such nick: '' @ nick))"

definition channel_key :: "ustring \<Rightarrow> net \<Rightarrow> ustring + ustring" where
  "channel_key name n =
     (if hm_has (n_rooms n) (fold_name name) then Inr (fold_name name) else Inl (U ''no such channel: '' @ name))"

definition member_of :: "ustring \<Rightarrow> ustring \<Rightarrow> net \<Rightarrow> ustring + (ustring \<times> nat)" where
  "member_of channel nick n =
     (case channel_key channel n of
        Inl e \<Rightarrow> Inl e
      | Inr key \<Rightarrow>
          (case registered nick n of
             Inl e \<Rightarrow> Inl e
           | Inr who \<Rightarrow>
               if in_room who key n then Inr (key, who) else Inl (nick @ U '' is not in '' @ channel)))"

definition shown_name :: "ustring \<Rightarrow> net \<Rightarrow> ustring" where
  "shown_name key n = (case hm_get (n_rooms n) key of Some r \<Rightarrow> r_name r | None \<Rightarrow> key)"

text \<open>
  \<open>insert\<close> and \<open>remove\<close> on the operator set report whether they changed it.
\<close>

definition set_op :: "ustring \<Rightarrow> ustring \<Rightarrow> bool \<Rightarrow> net \<Rightarrow> net \<times> (ustring + ustring)" where
  "set_op channel nick give n =
     (case member_of channel nick n of
        Inl e \<Rightarrow> (n, Inl e)
      | Inr (key, who) \<Rightarrow>
          (let shown = shown_name key n; name = nick_of who n;
               is_op = (case hm_get (n_rooms n) key of Some r \<Rightarrow> who \<in> set (r_operators r) | None \<Rightarrow> give);
               verb = (if give then U ''an operator'' else U ''not an operator'');
               n1 = n\<lparr>n_rooms := hm_modify key (\<lambda>r. r\<lparr>r_operators :=
                   (if give then hs_insert who (r_operators r) else hs_remove who (r_operators r))\<rparr>) (n_rooms n)\<rparr>
           in if is_op = give then (n1, Inl (name @ U '' is already '' @ verb @ U '' in '' @ shown))
              else
                (let mode = \<lparr>msg_prefix = Some (server_prefix n1),
                       msg_command = Raw (U ''MODE'') [shown, if give then U ''+o'' else U ''-o'', name]\<rparr>;
                     n2 = broadcast key mode None n1;
                     n3 = emit (EvMode shown (n_server_name n2) name give) n2
                 in (n3, Inr (name @ U '' is now '' @ verb @ U '' in '' @ shown)))))"

fun kick_all :: "ustring \<Rightarrow> ustring \<Rightarrow> nat list \<Rightarrow> net \<Rightarrow> net" where
  "kick_all key why [] n = n"
| "kick_all key why (x # xs) n = kick_all key why xs (kick_member key x (server_prefix n) (Some why) n)"

fun wall_loop :: "ustring \<Rightarrow> nat list \<Rightarrow> net \<Rightarrow> net" where
  "wall_loop body [] n = n"
| "wall_loop body (x # xs) n = wall_loop body xs (send x (server_notice (nick_of x n) body n) n)"

definition motd_line :: "ustring \<Rightarrow> ustring" where
  "motd_line l = truncate_bytes (filter (\<lambda>c. \<not> is_control c) l) MOTD_LINE_LEN"

fun execute :: "admin_command \<Rightarrow> net \<Rightarrow> net \<times> (ustring + ustring)" where
  "execute (AcKick channel nick reason) n =
     (case member_of channel nick n of
        Inl e \<Rightarrow> (n, Inl e)
      | Inr (key, victim) \<Rightarrow>
          (kick_member key victim (server_prefix n) (map_option (\<lambda>r. truncate_bytes r TOPIC_LEN) reason) n,
           Inr (U ''kicked '' @ nick @ U '' from '' @ shown_name key n)))"
| "execute (AcDisconnect nick reason) n =
     (case registered nick n of
        Inl e \<Rightarrow> (n, Inl e)
      | Inr who \<Rightarrow>
          (close who (case reason of Some r \<Rightarrow> r | None \<Rightarrow> U ''Removed by the operator'') n,
           Inr (U ''disconnected '' @ nick_of who n)))"
| "execute (AcBan nick reason) n =
     (if \<not> valid_nick nick then (n, Inl (nick @ U '' is not a nickname''))
      else if fold_name nick \<in> set (n_banned n) then (n, Inl (nick @ U '' is already banned''))
      else
        (let n1 = n\<lparr>n_banned := hs_insert (fold_name nick) (n_banned n)\<rparr>;
             n2 = (case hm_get (n_nicks n1) (fold_name nick) of
                     None \<Rightarrow> n1
                   | Some who \<Rightarrow> close who (U ''Banned: ''
                       @ (case reason of Some r \<Rightarrow> r | None \<Rightarrow> U ''Banned by the operator'')) n1)
         in (n2, Inr (U ''banned '' @ nick))))"
| "execute (AcUnban nick) n =
     (if fold_name nick \<in> set (n_banned n)
      then (n\<lparr>n_banned := hs_remove (fold_name nick) (n_banned n)\<rparr>, Inr (U ''unbanned '' @ nick))
      else (n, Inl (nick @ U '' is not banned'')))"
| "execute (AcSetTopic channel topic0) n =
     (case channel_key channel n of
        Inl e \<Rightarrow> (n, Inl e)
      | Inr key \<Rightarrow>
          (let topic = truncate_bytes topic0 TOPIC_LEN; shown = shown_name key n;
               n1 = set_topic key topic (n_server_name n) n;
               n2 = emit (EvTopic shown (n_server_name n1) topic) n1;
               n3 = broadcast key \<lparr>msg_prefix = Some (server_prefix n2), msg_command = TOPIC shown (Some topic)\<rparr>
                      None n2
           in (n3, Inr (U ''topic of '' @ shown @ U '' updated''))))"
| "execute (AcCloseChannel channel reason) n =
     (case channel_key channel n of
        Inl e \<Rightarrow> (n, Inl e)
      | Inr key \<Rightarrow>
          (let shown = shown_name key n;
               why = (case map_option (\<lambda>r. truncate_bytes r TOPIC_LEN) reason of
                        Some r \<Rightarrow> r | None \<Rightarrow> U ''Channel closed by the operator'');
               members = (case hm_get (n_rooms n) key of Some r \<Rightarrow> sort (r_members r) | None \<Rightarrow> [])
           in (kick_all key why members n,
               Inr (U ''closed '' @ shown @ U '' ('' @ show_nat (length members) @ U '' removed)''))))"
| "execute (AcOp channel nick) n = set_op channel nick True n"
| "execute (AcDeop channel nick) n = set_op channel nick False n"
| "execute (AcNotice target text0) n =
     (let body = truncate_bytes text0 TOPIC_LEN
      in if body = [] then (n, Inl (U ''nothing to say''))
         else if is_channel target then
           (case channel_key target n of
              Inl e \<Rightarrow> (n, Inl e)
            | Inr key \<Rightarrow> (broadcast key (server_notice target body n) None n, Inr (U ''sent to '' @ target)))
         else
           (case registered target n of
              Inl e \<Rightarrow> (n, Inl e)
            | Inr who \<Rightarrow> (send who (server_notice target body n) n, Inr (U ''sent to '' @ target))))"
| "execute (AcWall text0) n =
     (let body = truncate_bytes text0 TOPIC_LEN
      in if body = [] then (n, Inl (U ''nothing to say''))
         else (let everyone = map fst (filter (\<lambda>(_, c). cl_registered c) (n_clients n))
               in (wall_loop body everyone n,
                   Inr (U ''sent to '' @ show_nat (length everyone) @ U '' connected''))))"
| "execute (AcSetMotd lines0) n =
     (let lines = filter (\<lambda>l. l \<noteq> []) (map motd_line lines0)
      in if lines = [] then
           (n\<lparr>n_motd := default_motd\<rparr>, Inr (U ''message of the day restored to the default''))
         else (n\<lparr>n_motd := lines\<rparr>,
               Inr (U ''message of the day set ('' @ show_nat (length lines) @ U '' lines)'')))"

definition run_admin :: "admin_command \<Rightarrow> net \<Rightarrow> net \<times> (ustring + ustring)" where
  "run_admin cmd n =
     (case execute cmd n of
        (n', Inr t) \<Rightarrow> (emit (EvAdmin True t) n', Inr t)
      | (n', Inl t) \<Rightarrow> (emit (EvAdmin False t) n', Inl t))"

section \<open>Snapshot\<close>

record user_info =
  ui_id :: nat
  ui_nick :: "ustring option"
  ui_user :: "ustring option"
  ui_realname :: "ustring option"
  ui_registered :: bool
  ui_channels :: "ustring list"
  ui_connected_at :: nat

record member_info =
  mi_nick :: ustring
  mi_op :: bool

record channel_info =
  ci_name :: ustring
  ci_topic :: "ustring option"
  ci_topic_set_by :: "ustring option"
  ci_members :: "member_info list"

record net_snapshot =
  ns_server_name :: ustring
  ns_network_name :: ustring
  ns_started_at :: nat
  ns_connections_total :: nat
  ns_messages_total :: nat
  ns_users :: "user_info list"
  ns_channels :: "channel_info list"
  ns_banned :: "ustring list"
  ns_motd :: "ustring list"

definition shown_channels :: "net \<Rightarrow> ustring list \<Rightarrow> ustring list" where
  "shown_channels n keys = sort_key fold_name (List.map_filter (\<lambda>k. map_option r_name (hm_get (n_rooms n) k)) keys)"

definition user_info_of :: "net \<Rightarrow> nat \<times> client \<Rightarrow> user_info" where
  "user_info_of n = (\<lambda>(who, c). \<lparr>ui_id = who, ui_nick = map_option clean (cl_nick c),
     ui_user = map_option clean (cl_user c), ui_realname = map_option clean (cl_real c),
     ui_registered = cl_registered c, ui_channels = shown_channels n (cl_channels c),
     ui_connected_at = cl_connected_at c\<rparr>)"

definition user_sort_key :: "user_info \<Rightarrow> bool \<times> ustring option \<times> nat" where
  "user_sort_key u = (\<not> ui_registered u, map_option fold_name (ui_nick u), ui_id u)"

definition member_info_of :: "net \<Rightarrow> room \<Rightarrow> nat \<Rightarrow> member_info option" where
  "member_info_of n r m =
     map_option (\<lambda>nick. \<lparr>mi_nick = nick, mi_op = (m \<in> set (r_operators r))\<rparr>)
       (Option.bind (hm_get (n_clients n) m) cl_nick)"

definition channel_info_of :: "net \<Rightarrow> room \<Rightarrow> channel_info" where
  "channel_info_of n r =
     \<lparr>ci_name = r_name r, ci_topic = map_option (\<lambda>t. clean (t_text t)) (r_topic r),
      ci_topic_set_by = map_option (\<lambda>t. clean (t_set_by t)) (r_topic r),
      ci_members = sort_key (\<lambda>m. (\<not> mi_op m, fold_name (mi_nick m)))
        (List.map_filter (member_info_of n r) (r_members r))\<rparr>"

definition snapshot :: "net \<Rightarrow> net_snapshot" where
  "snapshot n =
     \<lparr>ns_server_name = n_server_name n, ns_network_name = n_network_name n,
      ns_started_at = n_started_at n, ns_connections_total = n_connections_total n,
      ns_messages_total = n_messages_total n,
      ns_users = sort_key user_sort_key (map (user_info_of n) (n_clients n)),
      ns_channels = sort_key (\<lambda>c. fold_name (ci_name c)) (map (channel_info_of n) (hm_values (n_rooms n))),
      ns_banned = sort (n_banned n), ns_motd = n_motd n\<rparr>"

section \<open>The operator's commands keep the invariant\<close>

lemma in_room_kick:
  assumes "in_room x key n" "x \<noteq> victim"
  shows "in_room x key (kick_member key victim by_whom reason n)"
proof -
  obtain r where r: "hm_get (n_rooms n) key = Some r" "x \<in> set (r_members r)"
    using assms(1) by (auto simp: in_room_def split: option.splits)
  then have "x \<in> set (removeAll victim (r_members r))" using assms(2) by simp
  then have "removeAll victim (r_members r) \<noteq> []" by (metis empty_iff list.set(1))
  with r assms(2) show ?thesis
    by (simp add: kick_member_def leave_room_def in_room_def Let_def map_simps)
qed

lemma net_ok_kick_all:
  "net_ok n \<Longrightarrow> distinct xs \<Longrightarrow> (\<And>x. x \<in> set xs \<Longrightarrow> in_room x key n) \<Longrightarrow> net_ok (kick_all key why xs n)"
proof (induction key why xs n rule: kick_all.induct)
  case (2 key why x xs n)
  let ?n' = "kick_member key x (server_prefix n) (Some why) n"
  have "net_ok ?n'" using 2 by (intro net_ok_kick_member) auto
  moreover have "in_room y key ?n'" if "y \<in> set xs" for y
    using 2(3,4) that by (intro in_room_kick) auto
  ultimately show ?case using 2 by simp
qed simp

lemma quiet_wall_loop: "quiet n (wall_loop body xs n)"
  by (induction body xs n rule: wall_loop.induct) (auto intro: quiet_trans [OF quiet_send])

lemma net_ok_banned:
  assumes "net_ok n" "distinct bs" "\<And>who c nick. hm_get (n_clients n) who = Some c \<Longrightarrow> cl_nick c = Some nick \<Longrightarrow>
    fold_name nick \<in> set bs \<Longrightarrow> fold_name nick \<in> set (n_banned n)"
  shows "net_ok (n\<lparr>n_banned := bs\<rparr>)"
  using assms by (auto simp: net_ok_def net_inv_def clients_ok_def client_ok_def split: option.splits)

lemma registered_Inr: "registered nick n = Inr who \<Longrightarrow> is_registered who n \<and> hm_get (n_nicks n) (fold_name nick) = Some who"
  by (auto simp: registered_def split: option.splits if_splits)

lemma channel_key_Inr: "channel_key name n = Inr key \<Longrightarrow> key = fold_name name \<and> (\<exists>r. hm_get (n_rooms n) key = Some r)"
  by (auto simp: channel_key_def split: if_splits)

lemma member_of_Inr:
  "member_of channel nick n = Inr (key, who) \<Longrightarrow>
    key = fold_name channel \<and> in_room who key n \<and> is_registered who n"
  by (auto simp: member_of_def split: sum.splits if_splits dest!: channel_key_Inr registered_Inr)

lemma net_ok_set_op:
  assumes "net_ok n"
  shows "net_ok (fst (set_op channel nick give n))"
proof (cases "member_of channel nick n")
  case (Inr p)
  obtain key who where p: "p = (key, who)" by (cases p)
  let ?n1 = "n\<lparr>n_rooms := hm_modify key (\<lambda>r. r\<lparr>r_operators :=
      (if give then hs_insert who (r_operators r) else hs_remove who (r_operators r))\<rparr>) (n_rooms n)\<rparr>"
  have "in_room who key n" using member_of_Inr Inr p by simp
  then have "room_ok key r \<Longrightarrow> hm_get (n_rooms n) key = Some r \<Longrightarrow>
      room_ok key (r\<lparr>r_operators := (if give then hs_insert who (r_operators r) else hs_remove who (r_operators r))\<rparr>)"
    for r by (cases give) (auto simp: room_ok_def in_room_def distinct_removeAll)
  then have "net_ok ?n1" using assms by (intro net_ok_modify_room) simp_all
  then show ?thesis using Inr p by (simp add: set_op_def Let_def)
qed (simp add: set_op_def assms)

lemma motd_line_ok: "motd_line l \<noteq> [] \<Longrightarrow> blen (motd_line l) \<le> 300 \<and> list_all (\<lambda>c. \<not> is_control c) (motd_line l)"
  using truncate_bytes_blen [of "filter (\<lambda>c. \<not> is_control c) l" MOTD_LINE_LEN]
    set_mono_prefix [OF truncate_bytes_prefix [of "filter (\<lambda>c. \<not> is_control c) l" MOTD_LINE_LEN]]
  by (auto simp: motd_line_def MOTD_LINE_LEN_def list_all_iff)

lemma net_ok_ban:
  assumes n: "net_ok n"
  shows "net_ok (fst (execute (AcBan nick reason) n))"
proof (cases "\<not> valid_nick nick \<or> fold_name nick \<in> set (n_banned n)")
  case False
  define n1 where "n1 = n\<lparr>n_banned := hs_insert (fold_name nick) (n_banned n)\<rparr>"
  note ok = net_okD [OF n]
  have inv: "net_inv (n_banned n) n1" using net_ok_inv [OF n] by (simp add: net_inv_def n1_def)
  define n2 where "n2 = (case hm_get (n_nicks n1) (fold_name nick) of None \<Rightarrow> n1
    | Some who \<Rightarrow> close who (U ''Banned: ''
        @ (case reason of Some r \<Rightarrow> r | None \<Rightarrow> U ''Banned by the operator'')) n1)"
  have res: "fst (execute (AcBan nick reason) n) = n2" 
    unfolding n2_def n1_def using False by (simp add: Let_def)
  have inv2: "net_inv (n_banned n) n2" using inv net_inv_close by (simp add: n2_def split: option.splits)
  have bans: "n_banned n2 = hs_insert (fold_name nick) (n_banned n)"
    using close_effect(1) [OF inv] by (auto simp: n2_def n1_def split: option.splits)
  have gone: "held_key (map_of (n_clients n2)) x \<noteq> Some (fold_name nick)" for x
  proof (cases "hm_get (n_nicks n) (fold_name nick)")
    case None
    moreover have "hm_get (n_nicks n) (fold_name nick) = Some x
        \<longleftrightarrow> held_key (map_of (n_clients n)) x = Some (fold_name nick)"
      using nicks_agreeD [OF ok(5)] .
    ultimately show ?thesis by (simp add: n2_def n1_def)
  next
    case (Some who)
    then have "map_of (n_clients n2) = (map_of (n_clients n))(who := None)"
      using close_effect(2) [OF inv] by (simp add: n2_def n1_def)
    moreover have "held_key (map_of (n_clients n)) x = Some (fold_name nick) \<Longrightarrow> x = who"
      using nicks_agreeD [OF ok(5), of "fold_name nick" x] Some by simp
    ultimately show ?thesis by (auto simp: held_key_upd)
  qed
  have "clients_ok (n_banned n2) (map_of (n_clients n2))"
    unfolding clients_ok_def
  proof (intro allI impI)
    fix x c assume c: "map_of (n_clients n2) x = Some c"
    then have "client_ok (n_banned n) c \<and> (cl_channels c \<noteq> [] \<longrightarrow> cl_registered c)"
      using net_invD(5) [OF inv2] by (simp add: clients_ok_def)
    moreover have "fold_name nk \<noteq> fold_name nick" if "cl_nick c = Some nk" for nk
      using gone [of x] c that by (simp add: held_key_def)
    ultimately show "client_ok (n_banned n2) c \<and> (cl_channels c \<noteq> [] \<longrightarrow> cl_registered c)"
      by (cases "cl_nick c") (auto simp: client_ok_def bans)
  qed
  then have "net_ok n2" using inv2 ok(4) by (simp add: net_ok_def bans net_inv_def)
  then show ?thesis unfolding res .
qed (use n in auto)

lemma net_ok_execute:
  assumes n: "net_ok n"
  shows "net_ok (fst (execute cmd n))"
proof (cases cmd)
  case (AcKick channel nick reason)
  then show ?thesis
    using n net_ok_kick_member by (auto split: sum.splits dest!: member_of_Inr)
next
  case (AcDisconnect nick reason)
  then show ?thesis using n net_ok_close by (simp split: sum.splits)
next
  case (AcBan nick reason)
  then show ?thesis using net_ok_ban [OF n] by simp
next
  case (AcUnban nick)
  then show ?thesis using n net_okD(4) [OF n] by (auto intro!: net_ok_banned simp: distinct_removeAll)
next
  case (AcSetTopic channel topic)
  then show ?thesis using n by (simp add: Let_def net_ok_set_topic truncate_bytes_blen split: sum.splits)
next
  case (AcCloseChannel channel reason)
  show ?thesis
  proof (cases "channel_key channel n")
    case (Inr key)
    then obtain r where r: "hm_get (n_rooms n) key = Some r" using channel_key_Inr by blast
    then have "distinct (r_members r)" using net_okD(7) [OF n] by (auto simp: rooms_ok_def room_ok_def)
    then have "net_ok (kick_all key why (sort (r_members r)) n)" for why
      using n r by (intro net_ok_kick_all) (auto simp: in_room_def)
    with AcCloseChannel Inr r show ?thesis by (simp add: Let_def)
  qed (simp add: AcCloseChannel n)
next
  case (AcNotice target body)
  then show ?thesis using n by (simp add: Let_def split: sum.splits)
next
  case (AcWall body)
  then show ?thesis using n net_ok_out [OF n quiet_wall_loop] by (simp add: Let_def)
next
  case (AcSetMotd lines)
  have "motd_ok ls" if "ls = filter (\<lambda>l. l \<noteq> []) (map motd_line lines)" "ls \<noteq> []" for ls
    using that motd_line_ok by (auto simp: motd_ok_def list_all_iff)
  with n AcSetMotd show ?thesis
    using default_motd_ok by (simp add: net_ok_def net_inv_def Let_def)
qed (use n net_ok_set_op in simp_all)

lemma net_ok_run_admin: "net_ok n \<Longrightarrow> net_ok (fst (run_admin cmd n))"
  using net_ok_execute [of n cmd] by (auto simp: run_admin_def split: prod.splits sum.splits)

end
