(* ===== verification/Network_Out.thy ===== *)
theory Network_Out
  imports Network_Admin
begin

text \<open>
  What the server sends and logs. \<open>grows P n n'\<close> says that an operation only appends to the outbox
  and to the log, that every delivery satisfies \<open>P\<close>, and that every logged event is escaped. With
  \<open>P\<close> "is not the welcome numeric" it holds of every operation but the completion of registration,
  which is what makes the welcome a signal the connection's own task can rely on.
\<close>

section \<open>Appending\<close>

definition clean_event :: "server_event \<Rightarrow> bool" where
  "clean_event e \<longleftrightarrow> list_all safe_text (event_strings (ev_kind e))"

definition grows :: "(nat \<times> message \<Rightarrow> bool) \<Rightarrow> net \<Rightarrow> net \<Rightarrow> bool" where
  "grows P n n' \<longleftrightarrow> (\<exists>ds es. n_out n' = n_out n @ ds \<and> list_all P ds
     \<and> n_log n' = n_log n @ es \<and> list_all clean_event es)"

lemma growsI:
  "n_out n' = n_out n @ ds \<Longrightarrow> list_all P ds \<Longrightarrow> n_log n' = n_log n @ es \<Longrightarrow> list_all clean_event es \<Longrightarrow> grows P n n'"
  unfolding grows_def by blast

lemma grows_refl [simp]: "grows P n n"
  by (rule growsI [of _ _ "[]" _ "[]"]) simp_all

lemma grows_same: "n_out n' = n_out n \<Longrightarrow> n_log n' = n_log n \<Longrightarrow> grows P n n'"
  by (rule growsI [of _ _ "[]" _ "[]"]) simp_all

lemma grows_trans: "grows P a b \<Longrightarrow> grows P b c \<Longrightarrow> grows P a c"
  unfolding grows_def by (metis append_assoc list_all_append)

lemma grows_mono: "grows P a b \<Longrightarrow> (\<And>d. P d \<Longrightarrow> Q d) \<Longrightarrow> grows Q a b"
  unfolding grows_def by (metis (mono_tags, lifting) list_all_iff)

lemma grows_foldl: "(\<And>n x. x \<in> set xs \<Longrightarrow> grows P n (f n x)) \<Longrightarrow> grows P n (foldl f n xs)"
proof (induction xs arbitrary: n)
  case (Cons x xs)
  have "grows P n (f n x)" "grows P (f n x) (foldl f (f n x) xs)" using Cons by auto
  then show ?case by (auto intro: grows_trans)
qed simp

text \<open>A state that differs in fields other than the outbox and the log is as good as the other.\<close>

lemma grows_from: "grows P a b \<Longrightarrow> n_out a' = n_out a \<Longrightarrow> n_log a' = n_log a \<Longrightarrow> grows P a' b"
  by (simp add: grows_def)

lemma grows_to: "grows P a b \<Longrightarrow> n_out b' = n_out b \<Longrightarrow> n_log b' = n_log b \<Longrightarrow> grows P a b'"
  by (simp add: grows_def)

lemma grows_emit: "grows P n (emit k n)"
proof (cases "n_observed n")
  case True
  then show ?thesis
    by (intro growsI [of _ _ "[]" _ "[new_event (n_now n) k]"])
      (simp_all add: emit_def clean_event_def new_event_def sanitized_safe)
qed (simp add: emit_def)

lemma grows_send: "P (who, m) \<Longrightarrow> grows P n (send who m n)"
  by (cases "hm_has (n_clients n) who")
    (simp_all add: send_def growsI [of _ _ "[(who, m)]" _ "[]"])

lemma grows_send_each: "(\<And>x. P (x, m)) \<Longrightarrow> grows P n (send_each xs m skip n)"
proof (induction xs m skip n rule: send_each.induct)
  case (2 x xs m skip n)
  have "grows P n (if Some x \<noteq> skip then send x m n else n)" using 2(2) by (simp add: grows_send)
  from grows_trans [OF this 2(1) [OF 2(2)]] show ?case by simp
qed simp

lemma grows_broadcast: "(\<And>x. P (x, m)) \<Longrightarrow> grows P n (broadcast key m skip n)"
  by (simp add: broadcast_def grows_send_each split: option.splits)

lemma grows_tell_loop: "(\<And>x. P (x, m)) \<Longrightarrow> grows P n (snd (tell_loop m xs told n))"
  by (induction m xs told n rule: tell_loop.induct) (auto intro: grows_trans grows_send)

lemma grows_peers_loop: "(\<And>x. P (x, m)) \<Longrightarrow> grows P n (peers_loop m names told n)"
proof (induction m names told n rule: peers_loop.induct)
  case (2 m name names told n)
  show ?case
  proof (cases "hm_get (n_rooms n) name")
    case (Some r)
    obtain told' n' where loop: "tell_loop m (r_members r) told n = (told', n')" by fastforce
    have "grows P n n'" using grows_tell_loop [of P m n "r_members r" told, OF 2(3)] loop by simp
    with 2(2) [OF Some loop [symmetric] refl 2(3)] Some loop show ?thesis
      by (auto intro: grows_trans)
  qed (use 2 in simp)
qed simp

lemma grows_tell_peers: "(\<And>x. P (x, m)) \<Longrightarrow> grows P n (tell_peers who m incl n)"
  unfolding tell_peers_def
  by (auto intro!: grows_peers_loop grows_trans [OF grows_send grows_peers_loop] split: option.splits)

lemma grows_quit_loop: "(\<And>x. P (x, m)) \<Longrightarrow> grows P n (quit_loop who m names told n)"
proof (induction who m names told n rule: quit_loop.induct)
  case (2 who m name names told n)
  show ?case
  proof (cases "hm_get (n_rooms n) name")
    case (Some r)
    let ?n1 = "n\<lparr>n_rooms := hm_insert name (drop_member who r) (n_rooms n)\<rparr>"
    obtain told' n' where loop: "tell_loop m (r_members (drop_member who r)) told ?n1 = (told', n')" by fastforce
    have "grows P ?n1 n'"
      using grows_tell_loop [of P m ?n1 "r_members (drop_member who r)" told, OF 2(3)] loop by simp
    then have "grows P n n'" by (rule grows_from) simp_all
    moreover have "grows P n' (quit_loop who m names told' n')"
      using 2(2) [OF Some _ _ _ 2(3), of "drop_member who r" "(told', n')" told' n'] loop
      by (simp add: drop_member_def)
    ultimately show ?thesis using Some loop by (auto simp: drop_member_def Let_def intro: grows_trans)
  qed (use 2 in simp)
qed simp

section \<open>The welcome\<close>

definition is_welcome :: "message \<Rightarrow> bool" where
  "is_welcome m = (case msg_command m of Response r _ \<Rightarrow> r = RPL_WELCOME | _ \<Rightarrow> False)"

definition no_welcome :: "nat \<times> message \<Rightarrow> bool" where
  "no_welcome d \<longleftrightarrow> \<not> is_welcome (snd d)"

lemma grows_numeric_args: "r \<noteq> RPL_WELCOME \<Longrightarrow> grows no_welcome n (numeric_args who r args n)"
  by (simp add: numeric_args_def grows_send no_welcome_def is_welcome_def server_msg_def)

lemma grows_numeric: "r \<noteq> RPL_WELCOME \<Longrightarrow> grows no_welcome n (numeric who r args n)"
  by (simp add: numeric_def grows_numeric_args)

lemma grows_raw: "grows no_welcome n (raw who verb args n)"
  by (simp add: raw_def grows_send no_welcome_def is_welcome_def server_msg_def)

lemmas grows_replies = grows_numeric_args grows_numeric grows_raw grows_emit

lemma grows_send_motd: "grows no_welcome n (send_motd who n)"
  unfolding send_motd_def Let_def
  by (rule grows_trans [OF grows_trans [OF grows_numeric grows_foldl] grows_numeric])
    (simp_all add: grows_numeric)

lemma grows_send_topic: "grows no_welcome n (send_topic who key explicit n)"
  unfolding send_topic_def
  by (auto intro!: grows_trans [OF grows_numeric_args grows_numeric_args] grows_numeric_args split: option.splits)

lemma grows_send_names: "grows no_welcome n (send_names who name n)"
  unfolding send_names_def Let_def
  by (auto intro!: grows_trans [OF grows_numeric_args grows_numeric_args] grows_numeric_args
      split: option.splits prod.splits)

lemma grows_on_list: "grows no_welcome n (srv_on_list who only n)"
  unfolding srv_on_list_def Let_def
  by (rule grows_trans [OF grows_trans [OF grows_numeric_args grows_foldl] grows_numeric])
    (auto simp: grows_numeric_args split: option.splits)

lemma grows_on_whois: "grows no_welcome n (srv_on_whois who nick n)"
  unfolding srv_on_whois_def Let_def
  by (auto intro!: grows_trans [OF _ grows_numeric_args] split: option.splits)

lemma grows_disconnect: "grows no_welcome n (disconnect who reason n)"
proof (cases "hm_get (n_clients n) who")
  case (Some c)
  define said where "said = (case cl_quit_reason c of Some q \<Rightarrow> q | None \<Rightarrow> reason)"
  define n1 where "n1 = n\<lparr>n_clients := hm_remove who (n_clients n),
      n_nicks := (case cl_nick c of Some nick \<Rightarrow> hm_remove (fold_name nick) (n_nicks n) | None \<Rightarrow> n_nicks n)\<rparr>"
  define n2 where "n2 = (case cl_nick c of
      Some nick \<Rightarrow> emit (if cl_registered c then EvQuit nick said else EvDropped who said) n1
    | None \<Rightarrow> emit (EvDropped who said) n1)"
  define n3 where "n3 = quit_loop who \<lparr>msg_prefix = Some (client_prefix c), msg_command = QUIT (Some said)\<rparr>
      (cl_channels c) [] n2"
  have res: "disconnect who reason n = n3\<lparr>n_rooms := filter (\<lambda>(k, r). r_members r \<noteq> []) (n_rooms n3)\<rparr>"
    unfolding disconnect_def n3_def n2_def n1_def said_def by (simp only: Some option.case Let_def)
  have "grows no_welcome n n1" by (rule grows_same) (simp_all add: n1_def)
  moreover have "grows no_welcome n1 n2" by (simp add: n2_def grows_emit split: option.splits)
  moreover have "grows no_welcome n2 n3"
    unfolding n3_def by (rule grows_quit_loop) (simp add: no_welcome_def is_welcome_def)
  moreover have "grows no_welcome n3 (disconnect who reason n)" by (rule grows_same) (simp_all add: res)
  ultimately show ?thesis by (blast intro: grows_trans)
qed (simp add: disconnect_def)

lemma grows_close: "grows no_welcome n (close who reason n)"
  unfolding close_def Let_def
  by (rule grows_trans [OF grows_trans [OF grows_send grows_same] grows_disconnect])
    (simp_all add: no_welcome_def is_welcome_def)

lemma grows_enter: "grows no_welcome n (enter_room who name n)"
  by (rule grows_same) (simp_all add: enter_room_def Let_def)

lemma grows_leave: "grows no_welcome n (leave_room key who n)"
  by (rule grows_same) (simp_all add: leave_room_def Let_def)

lemma grows_set_topic: "grows no_welcome n (set_topic key body setter n)"
  by (rule grows_same) (simp_all add: set_topic_def)

lemma grows_claim: "grows no_welcome n (claim_nick who nick n)"
  by (rule grows_same) (simp_all add: claim_nick_def Let_def)

lemma no_welcome_cmd [simp]:
  "no_welcome (x, \<lparr>msg_prefix = p, msg_command = c\<rparr>) \<longleftrightarrow> (case c of Response r _ \<Rightarrow> r \<noteq> RPL_WELCOME | _ \<Rightarrow> True)"
  by (cases c) (simp_all add: no_welcome_def is_welcome_def)

lemma grows_on_join: "grows no_welcome n (srv_on_join who name n)"
  unfolding srv_on_join_def Let_def
  by (auto intro!: grows_numeric_args grows_trans [OF _ grows_send_names] grows_trans [OF _ grows_send_topic]
      grows_trans [OF _ grows_emit] grows_trans [OF _ grows_broadcast] grows_trans [OF _ grows_send] grows_enter)

lemma grows_on_part: "grows no_welcome n (srv_on_part who name reason n)"
  unfolding srv_on_part_def Let_def
  by (auto intro!: grows_numeric_args grows_trans [OF _ grows_leave] grows_trans [OF _ grows_emit] grows_broadcast
      split: option.splits)

lemma grows_on_topic: "grows no_welcome n (srv_on_topic who name topic n)"
  unfolding srv_on_topic_def Let_def
  by (auto intro!: grows_numeric_args grows_send_topic grows_trans [OF _ grows_broadcast] grows_trans [OF _ grows_emit]
      grows_set_topic split: option.splits)

lemma grows_kick_member: "grows no_welcome n (kick_member key victim by_whom reason n)"
  unfolding kick_member_def Let_def
  by (auto intro!: grows_trans [OF _ grows_leave] grows_trans [OF _ grows_emit] grows_broadcast split: option.splits)

lemma grows_on_kick: "grows no_welcome n (srv_on_kick who name nick reason n)"
  unfolding srv_on_kick_def Let_def
  by (auto intro!: grows_numeric_args grows_kick_member split: option.splits)

lemma grows_kick_loop: "grows no_welcome n (kick_loop who channels reason i nicks n)"
proof (induction who channels reason i nicks n rule: kick_loop.induct)
  case (2 who channels reason i nick nicks n)
  then show ?case by (auto intro: grows_trans [OF grows_on_kick] split: option.splits)
qed simp

lemma grows_on_message: "grows no_welcome n (srv_on_message who target body notice n)"
proof -
  let ?n1 = "n\<lparr>n_messages_total := n_messages_total n + 1\<rparr>"
  have "grows no_welcome n (emit k ?n1)" for k by (rule grows_from [OF grows_emit]) simp_all
  moreover have "grows no_welcome n ?n1" by (rule grows_same) simp_all
  ultimately show ?thesis
    unfolding srv_on_message_def Let_def
    by (auto intro!: grows_numeric grows_trans [OF _ grows_broadcast] grows_trans [OF _ grows_numeric_args]
        grows_trans [OF _ grows_send] split: option.splits)
qed

lemma grows_registered_command: "grows no_welcome n (registered_command render who cmd n)"
  unfolding registered_command_def Let_def
  by (cases cmd)
    (auto intro!: grows_foldl grows_on_join grows_on_part grows_on_message grows_on_topic grows_kick_loop
      grows_send_names grows_send_motd grows_on_list grows_on_whois grows_raw grows_numeric_args
      split: option.splits)

section \<open>Who is registered\<close>

definition regs :: "net \<Rightarrow> nat \<Rightarrow> bool option" where
  "regs n who = map_option cl_registered (hm_get (n_clients n) who)"

lemma regs_quiet: "quiet n n' \<Longrightarrow> regs n' = regs n"
  by (simp add: regs_def fun_eq_iff quiet_def)

lemma regs_modify:
  "n_clients n' = hm_modify who f (n_clients n) \<Longrightarrow> (\<And>c. cl_registered (f c) = cl_registered c) \<Longrightarrow> regs n' = regs n"
  by (auto simp: regs_def fun_eq_iff map_simps option.map_comp comp_def)

lemma regs_claim: "regs (claim_nick who nick n) = regs n"
  by (rule regs_modify [where who = who and f = "\<lambda>c. c\<lparr>cl_nick := Some nick\<rparr>"])
    (simp_all add: claim_nick_def Let_def)

lemma regs_enter: "regs (enter_room who name n) = regs n"
  by (rule regs_modify [where who = who and f = "\<lambda>c. c\<lparr>cl_channels := hs_insert (fold_name name) (cl_channels c)\<rparr>"])
    (simp_all add: enter_room_def Let_def)

lemma regs_leave: "regs (leave_room key who n) = regs n"
  by (rule regs_modify [where who = who and f = "\<lambda>c. c\<lparr>cl_channels := hs_remove key (cl_channels c)\<rparr>"])
    (simp_all add: leave_room_def Let_def)

lemma regs_set_topic: "regs (set_topic key body setter n) = regs n"
  by (simp add: set_topic_def regs_def fun_eq_iff)

lemmas regs_out = regs_quiet [OF quiet_emit] regs_quiet [OF quiet_send] regs_quiet [OF quiet_broadcast]
  regs_quiet [OF quiet_numeric_args] regs_quiet [OF quiet_numeric] regs_quiet [OF quiet_raw]
  regs_quiet [OF quiet_send_topic] regs_quiet [OF quiet_send_names] regs_quiet [OF quiet_send_motd]
  regs_quiet [OF quiet_on_list] regs_quiet [OF quiet_on_whois] regs_quiet [OF quiet_tell_peers]
  regs_quiet [OF quiet_on_ping] regs_quiet [OF quiet_ping] regs_quiet [OF quiet_send_welcome]

lemma regs_foldl: "(\<And>n x. regs (f n x) = regs n) \<Longrightarrow> regs (foldl f n xs) = regs n"
  by (induction xs arbitrary: n) simp_all

lemma regs_on_join: "regs (srv_on_join who name n) = regs n"
  by (simp add: srv_on_join_def Let_def regs_out regs_enter)

lemma regs_on_part: "regs (srv_on_part who name reason n) = regs n"
  by (simp add: srv_on_part_def Let_def regs_out regs_leave split: option.splits)

lemma regs_on_topic: "regs (srv_on_topic who name topic n) = regs n"
  by (simp add: srv_on_topic_def Let_def regs_out regs_set_topic split: option.splits)

lemma regs_kick_member: "regs (kick_member key victim by_whom reason n) = regs n"
  by (simp add: kick_member_def Let_def regs_out regs_leave split: option.splits)

lemma regs_on_kick: "regs (srv_on_kick who name nick reason n) = regs n"
  by (simp add: srv_on_kick_def Let_def regs_out regs_kick_member split: option.splits)

lemma regs_kick_loop: "regs (kick_loop who channels reason i nicks n) = regs n"
  by (induction who channels reason i nicks n rule: kick_loop.induct)
    (auto simp: regs_on_kick split: option.splits)

lemma regs_on_message: "regs (srv_on_message who target body notice n) = regs n"
proof -
  have "regs (n\<lparr>n_messages_total := k\<rparr>) = regs n" for k by (simp add: regs_def fun_eq_iff)
  then show ?thesis by (simp add: srv_on_message_def Let_def regs_out split: option.splits)
qed

lemma regs_registered_command: "regs (registered_command render who cmd n) = regs n"
  unfolding registered_command_def Let_def
  by (cases cmd)
    (simp_all add: regs_foldl regs_on_join regs_on_part regs_on_message regs_on_topic regs_kick_loop regs_out
      split: option.splits)

lemma regs_disconnect: "net_inv b n \<Longrightarrow> regs (disconnect who reason n) = (regs n)(who := None)"
  by (simp add: regs_def fun_eq_iff disconnect_clients)

lemma regs_close: "net_inv b n \<Longrightarrow> regs (close who reason n) = (regs n)(who := None)"
  by (simp add: regs_def fun_eq_iff close_effect)

lemma regs_connect: "regs (connect who n) = (regs n)(who \<mapsto> False)"
  by (simp add: regs_def fun_eq_iff connect_def Let_def map_simps new_client_def)

section \<open>Counting welcomes\<close>

definition welcomes :: "nat \<Rightarrow> net \<Rightarrow> nat" where
  "welcomes who n = length (filter (\<lambda>(x, m). x = who \<and> is_welcome m) (n_out n))"

lemma grows_welcomes: "grows no_welcome n n' \<Longrightarrow> welcomes who n' = welcomes who n"
  unfolding grows_def welcomes_def no_welcome_def
  by (fastforce simp: list_all_iff filter_empty_conv)

lemma send_welcome_count:
  "welcomes x (send_welcome who n) = welcomes x n + (if x = who \<and> hm_has (n_clients n) who then 1 else 0)"
proof -
  define n1 where "n1 = numeric who RPL_WELCOME
      [U ''Welcome to the '' @ n_network_name n @ U '' Network, '' @ nick_of who n] n"
  have "grows no_welcome n1 (send_welcome who n)"
    unfolding send_welcome_def Let_def n1_def
    by (intro grows_trans [OF _ grows_send_motd] grows_trans [OF _ grows_send] grows_trans [OF _ grows_numeric_args]
        grows_trans [OF _ grows_numeric] grows_refl) (simp_all add: no_welcome_def is_welcome_def server_msg_def)
  then have "welcomes x (send_welcome who n) = welcomes x n1" by (rule grows_welcomes)
  also have "\<dots> = welcomes x n + (if x = who \<and> hm_has (n_clients n) who then 1 else 0)"
    by (simp add: n1_def numeric_def numeric_args_def send_def welcomes_def is_welcome_def server_msg_def)
  finally show ?thesis .
qed

text \<open>The connection's own view: welcomed once it is registered, not before, and never twice.\<close>

fun welcome_fits :: "bool option \<Rightarrow> nat \<Rightarrow> bool" where
  "welcome_fits (Some True) k = (k = 1)"
| "welcome_fits (Some False) k = (k = 0)"
| "welcome_fits None k = (k \<le> 1)"

definition welcome_ok :: "net \<Rightarrow> bool" where
  "welcome_ok n \<longleftrightarrow> (\<forall>who. welcome_fits (regs n who) (welcomes who n))"

lemma welcome_fits_le: "welcome_fits r k \<Longrightarrow> k \<le> 1"
  by (induction r k rule: welcome_fits.induct) simp_all

lemma welcome_ok_same:
  "welcome_ok n \<Longrightarrow> regs n' = regs n \<Longrightarrow> grows no_welcome n n' \<Longrightarrow> welcome_ok n'"
  by (simp add: welcome_ok_def grows_welcomes)

lemma welcome_ok_gone:
  assumes "welcome_ok n" "regs n' = (regs n)(who := None)" "grows no_welcome n n'"
  shows "welcome_ok n'"
proof -
  have "welcomes who n \<le> 1"
    using assms(1) welcome_fits_le by (auto simp: welcome_ok_def)
  with assms show ?thesis by (simp add: welcome_ok_def grows_welcomes)
qed

lemma try_register_cases:
  "try_register who n = n \<or>
   (regs n who = Some False \<and> regs (try_register who n) = (regs n)(who \<mapsto> True)
    \<and> (\<forall>x. welcomes x (try_register who n) = welcomes x n + (if x = who then 1 else 0)))"
proof (cases "hm_get (n_clients n) who")
  case (Some c)
  define n1 where "n1 = n\<lparr>n_clients := hm_modify who (\<lambda>c. c\<lparr>cl_registered := True\<rparr>) (n_clients n)\<rparr>"
  define n2 where "n2 = send_welcome who n1"
  show ?thesis
  proof (cases "\<not> cl_registered c \<and> \<not> cl_negotiating c \<and> cl_nick c \<noteq> None \<and> cl_user c \<noteq> None")
    case True
    have res: "try_register who n = emit (EvRegistered who (nick_of who n2)) n2"
      using Some True by (simp add: try_register_def Let_def n1_def n2_def)
    have "regs n1 = (regs n)(who \<mapsto> True)"
      using Some by (simp add: regs_def fun_eq_iff n1_def map_simps)
    moreover have "welcomes x (try_register who n) = welcomes x n2" for x
      unfolding res by (rule grows_welcomes [OF grows_emit])
    moreover have "welcomes x n2 = welcomes x n + (if x = who then 1 else 0)" for x
    proof -
      have "welcomes x n1 = welcomes x n" by (simp add: n1_def welcomes_def)
      then show ?thesis using send_welcome_count [of x who n1] Some by (simp add: n2_def n1_def map_simps)
    qed
    moreover have "regs n who = Some False" using Some True by (simp add: regs_def)
    ultimately show ?thesis by (simp add: res n2_def regs_out)
  next
    case False
    then have "try_register who n = n" using Some by (auto simp: try_register_def)
    then show ?thesis ..
  qed
qed (simp add: try_register_def)

lemma welcome_ok_try_register:
  assumes "welcome_ok n"
  shows "welcome_ok (try_register who n)"
  using try_register_cases [of who n]
proof (elim disjE conjE)
  assume reg: "regs n who = Some False" "regs (try_register who n) = (regs n)(who \<mapsto> True)"
    "\<forall>x. welcomes x (try_register who n) = welcomes x n + (if x = who then 1 else 0)"
  have "welcome_fits (regs n who) (welcomes who n)" using assms by (simp add: welcome_ok_def)
  then have "welcomes who n = 0" by (simp add: reg(1))
  with assms reg show ?thesis by (auto simp: welcome_ok_def)
qed (simp add: assms)

text \<open>
  The shape of a handled message: something that sends no welcome and registers nobody, possibly
  taking a connection away, and then at most the completion of the sender's registration.
\<close>

definition shape :: "nat \<Rightarrow> net \<Rightarrow> net \<Rightarrow> bool" where
  "shape who n n' \<longleftrightarrow> (\<exists>n1. grows no_welcome n n1
     \<and> (regs n1 = regs n \<or> (\<exists>w. regs n1 = (regs n)(w := None)))
     \<and> (n' = n1 \<or> n' = try_register who n1))"

lemma shape_same: "grows no_welcome n n' \<Longrightarrow> regs n' = regs n \<Longrightarrow> shape who n n'"
  unfolding shape_def by blast

lemma shape_gone: "grows no_welcome n n' \<Longrightarrow> regs n' = (regs n)(w := None) \<Longrightarrow> shape who n n'"
  unfolding shape_def by blast

lemma shape_register: "grows no_welcome n n1 \<Longrightarrow> regs n1 = regs n \<Longrightarrow> shape who n (try_register who n1)"
  unfolding shape_def by blast

lemma modify_client_frame:
  assumes "\<And>c. cl_registered (f c) = cl_registered c"
  shows "regs (n\<lparr>n_clients := hm_modify who f (n_clients n)\<rparr>) = regs n"
    and "grows no_welcome n (n\<lparr>n_clients := hm_modify who f (n_clients n)\<rparr>)"
  by (rule regs_modify [where who = who and f = f]) (auto simp: assms intro: grows_same)

lemma shape_on_nick: "shape who n (srv_on_nick who nick n)"
proof -
  have told: "shape who n (tell_peers who \<lparr>msg_prefix = p, msg_command = NICK nk\<rparr> True (emit k (claim_nick who nk n)))"
    for p k nk
    by (rule shape_same)
      (auto simp: regs_out regs_claim intro!: grows_trans [OF grows_claim grows_trans [OF grows_emit grows_tell_peers]])
  have args: "shape who n (numeric_args who r a n)" "shape who n (numeric who r a n)" if "r \<noteq> RPL_WELCOME" for r a
    using that by (auto intro!: shape_same simp: regs_out grows_numeric_args grows_numeric)
  show ?thesis
    unfolding srv_on_nick_def Let_def
    using told args shape_register [OF grows_claim regs_claim] shape_same [OF grows_claim regs_claim]
    by (auto split: option.splits bool.splits)
qed

lemma shape_on_cap: "shape who n (srv_on_cap who sub n)"
  unfolding srv_on_cap_def Let_def
  by (cases sub) (auto intro!: shape_same shape_register grows_raw grows_trans [OF modify_client_frame(2) grows_raw]
      modify_client_frame simp: regs_out modify_client_frame(1))

lemma shape_on_user: "shape who n (srv_on_user who user real n)"
  unfolding srv_on_user_def
  by (auto intro!: shape_same shape_register grows_numeric modify_client_frame simp: regs_out)

lemma shape_handle:
  assumes n: "net_ok n"
  shows "shape who n (handle render who cmd n)"
proof (cases "hm_has (n_clients n) who")
  case True
  have args: "shape who n (numeric who r a n)" if "r \<noteq> RPL_WELCOME" for r a
    using that by (auto intro!: shape_same simp: regs_out grows_numeric)
  have pong: "shape who n (srv_on_ping who t n)" for t
    by (rule shape_same) (auto simp: regs_out srv_on_ping_def server_msg_def intro!: grows_send)
  have same: "shape who n n" by (rule shape_same) simp_all
  show ?thesis
    using True args pong same shape_on_nick shape_on_cap shape_on_user
      shape_gone [OF grows_close regs_close [OF net_ok_inv [OF n]]]
      shape_same [OF grows_registered_command regs_registered_command]
    by (cases cmd) (simp_all add: handle_def)
qed (simp add: handle_def shape_same)

lemma welcome_ok_shape: "shape who n n' \<Longrightarrow> welcome_ok n \<Longrightarrow> welcome_ok n'"
  unfolding shape_def using welcome_ok_same welcome_ok_gone welcome_ok_try_register by metis

text \<open>A connection number that has not been used is neither known nor greeted.\<close>

definition fresh :: "nat \<Rightarrow> net \<Rightarrow> bool" where
  "fresh who n \<longleftrightarrow> regs n who = None \<and> welcomes who n = 0"

lemma fresh_frame:
  "fresh x n \<Longrightarrow> grows no_welcome n n' \<Longrightarrow> regs n' = regs n \<or> (\<exists>w. regs n' = (regs n)(w := None)) \<Longrightarrow> fresh x n'"
  by (auto simp: fresh_def grows_welcomes)

lemma fresh_try_register: "fresh x n \<Longrightarrow> fresh x (try_register who n)"
  using try_register_cases [of who n] by (auto simp: fresh_def)

lemma fresh_shape: "shape who n n' \<Longrightarrow> fresh x n \<Longrightarrow> fresh x n'"
  unfolding shape_def using fresh_frame fresh_try_register by metis

section \<open>The log\<close>

lemma grows_any: "grows P n n' \<Longrightarrow> grows (\<lambda>_. True) n n'"
  by (rule grows_mono) simp_all

lemma grows_numeric_any: "grows (\<lambda>_. True) n (numeric who r args n)"
  by (simp add: numeric_def numeric_args_def grows_send)

lemma grows_try_register: "grows (\<lambda>_. True) n (try_register who n)"
proof -
  have greet: "grows (\<lambda>_. True) n (send_welcome who n)" for n
    unfolding send_welcome_def Let_def
    by (intro grows_trans [OF _ grows_any [OF grows_send_motd]] grows_trans [OF _ grows_send]
        grows_trans [OF _ grows_any [OF grows_numeric_args]] grows_trans [OF _ grows_numeric_any] grows_refl)
      simp_all
  have "grows (\<lambda>_. True) n (emit k (send_welcome who (n\<lparr>n_clients := cs\<rparr>)))" for k cs
    by (rule grows_trans [OF grows_from [OF greet] grows_emit]) simp_all
  then show ?thesis by (simp add: try_register_def Let_def split: option.splits)
qed

lemma grows_handle: "grows (\<lambda>_. True) n (handle render who cmd n)"
proof -
  have upd: "grows (\<lambda>_. True) n (n\<lparr>n_clients := cs\<rparr>)" for cs by (rule grows_same) simp_all
  have nick: "grows (\<lambda>_. True) n (srv_on_nick who nk n)" for nk
    unfolding srv_on_nick_def Let_def
    by (auto simp: grows_numeric_any intro!: grows_any [OF grows_numeric_args]
        grows_trans [OF grows_any [OF grows_claim] grows_try_register] grows_any [OF grows_claim]
        grows_trans [OF grows_any [OF grows_claim] grows_trans [OF grows_emit grows_tell_peers]]
        split: option.splits bool.splits)
  have cap: "grows (\<lambda>_. True) n (srv_on_cap who sub n)" for sub
    unfolding srv_on_cap_def Let_def
    by (cases sub) (auto intro!: grows_trans [OF upd grows_any [OF grows_raw]] grows_any [OF grows_raw]
        grows_trans [OF upd grows_try_register])
  show ?thesis
    unfolding handle_def
    by (cases cmd)
      (auto simp: grows_numeric_any nick cap srv_on_user_def srv_on_ping_def
        intro!: grows_any [OF grows_close] grows_any [OF grows_registered_command] grows_send
        grows_trans [OF upd grows_try_register])
qed

section \<open>The operator's commands\<close>

lemma execute_frame:
  assumes n: "net_ok n"
  shows "grows no_welcome n (fst (execute cmd n))
    \<and> (regs (fst (execute cmd n)) = regs n \<or> (\<exists>who. regs (fst (execute cmd n)) = (regs n)(who := None)))"
proof -
  have kick: "grows no_welcome n (kick_all key why xs n) \<and> regs (kick_all key why xs n) = regs n" for key why xs n
    by (induction key why xs n rule: kick_all.induct)
      (auto intro: grows_trans [OF grows_kick_member] simp: regs_kick_member)
  have wall: "grows no_welcome n (wall_loop body xs n)" for body xs n
  proof (induction body xs n rule: wall_loop.induct)
    case (2 body x xs n)
    show ?case by simp (rule grows_trans [OF grows_send 2], simp add: server_notice_def)
  qed simp
  have set_op: "grows no_welcome n (fst (set_op c nk g n)) \<and> regs (fst (set_op c nk g n)) = regs n" for c nk g
  proof (cases "member_of c nk n")
    case (Inr p)
    have "grows no_welcome n (n\<lparr>n_rooms := rs\<rparr>) \<and> regs (n\<lparr>n_rooms := rs\<rparr>) = regs n" for rs
      by (auto intro: grows_same simp: regs_def fun_eq_iff)
    with Inr show ?thesis
      by (auto simp: set_op_def Let_def regs_out split: prod.splits
          intro!: grows_trans [OF _ grows_emit] grows_trans [OF _ grows_broadcast])
  qed (simp add: set_op_def)
  note closing = grows_close regs_close [OF net_ok_inv [OF n]]
  show ?thesis
  proof (cases cmd)
    case (AcBan nick reason)
    let ?n1 = "n\<lparr>n_banned := hs_insert (fold_name nick) (n_banned n)\<rparr>"
    have "net_inv (n_banned n) ?n1" using net_ok_inv [OF n] by (simp add: net_inv_def)
    moreover have "grows no_welcome n ?n1" "regs ?n1 = regs n"
      by (auto intro: grows_same simp: regs_def fun_eq_iff)
    ultimately show ?thesis
      using AcBan by (auto simp: Let_def regs_close intro!: grows_trans [OF _ grows_close] split: option.splits)
  next
    case (AcSetTopic channel topic)
    then show ?thesis
      by (auto simp: Let_def regs_out regs_set_topic split: sum.splits
          intro!: grows_trans [OF _ grows_broadcast] grows_trans [OF _ grows_emit] grows_set_topic)
  next
    case (AcNotice target body)
    then show ?thesis
      by (auto simp: Let_def regs_out server_notice_def split: sum.splits intro!: grows_broadcast grows_send)
  next
    case (AcUnban nick)
    then show ?thesis by (auto intro: grows_same simp: regs_def fun_eq_iff)
  next
    case (AcSetMotd lines)
    then show ?thesis by (auto intro: grows_same simp: regs_def fun_eq_iff Let_def)
  qed (use closing kick wall set_op in \<open>auto simp: Let_def regs_kick_member regs_quiet [OF quiet_wall_loop]
        intro!: grows_kick_member split: sum.splits\<close>)
qed

lemma run_admin_frame:
  assumes n: "net_ok n"
  shows "grows no_welcome n (fst (run_admin cmd n))
    \<and> (regs (fst (run_admin cmd n)) = regs n \<or> (\<exists>who. regs (fst (run_admin cmd n)) = (regs n)(who := None)))"
  using execute_frame [OF n, of cmd]
  by (auto simp: run_admin_def regs_out intro: grows_trans [OF _ grows_emit] split: prod.splits sum.splits)

lemma welcome_ok_run_admin: "net_ok n \<Longrightarrow> welcome_ok n \<Longrightarrow> welcome_ok (fst (run_admin cmd n))"
  using run_admin_frame [of n cmd] welcome_ok_same welcome_ok_gone by metis

end
