(* ===== verification/Network_Sys.thy ===== *)
theory Network_Sys
  imports Network_Out
begin

text \<open>
  The running server (\<^verbatim>\<open>core/ddirc-server/src/lib.rs\<close>): the accept task numbers the connections, and
  the one task that owns the network handles the events of all connections, the operator's requests
  and the keepalive timers one at a time, in any order. \<open>sv_step\<close> is one such event; a connection
  is \<open>sv_pending\<close> between its number being issued and its TLS handshake ending. The theory also
  computes what a message, a departure and a rename deliver, and to whom.
\<close>

section \<open>The event loop\<close>

record server =
  sv_net :: net
  sv_next :: nat
  sv_pending :: "nat list"

definition server_start :: "ustring \<Rightarrow> ustring \<Rightarrow> ustring \<Rightarrow> nat \<Rightarrow> server" where
  "server_start name network version now =
     \<lparr>sv_net = observe (new_net name network version now), sv_next = 1, sv_pending = []\<rparr>"

inductive sv_step :: "(command \<Rightarrow> ustring) \<Rightarrow> server \<Rightarrow> server \<Rightarrow> bool" for render where
  accept: "sv_step render s (s\<lparr>sv_next := sv_next s + 1, sv_pending := sv_next s # sv_pending s\<rparr>)"
| handshake_failed: "who \<in> set (sv_pending s) \<Longrightarrow>
    sv_step render s (s\<lparr>sv_pending := removeAll who (sv_pending s)\<rparr>)"
| connected: "who \<in> set (sv_pending s) \<Longrightarrow>
    sv_step render s (s\<lparr>sv_net := connect who (sv_net s), sv_pending := removeAll who (sv_pending s)\<rparr>)"
| line: "sv_step render s (s\<lparr>sv_net := handle render who cmd (sv_net s)\<rparr>)"
| disconnected: "sv_step render s (s\<lparr>sv_net := disconnect who reason (sv_net s)\<rparr>)"
| idle: "sv_step render s (s\<lparr>sv_net := ping who (sv_net s)\<rparr>)"
| admin: "sv_step render s (s\<lparr>sv_net := fst (run_admin cmd (sv_net s))\<rparr>)"
| clock: "sv_step render s (s\<lparr>sv_net := (sv_net s)\<lparr>n_now := t\<rparr>\<rparr>)"

inductive sv_reach :: "(command \<Rightarrow> ustring) \<Rightarrow> server \<Rightarrow> bool" for render where
  start: "sv_reach render (server_start name network version now)"
| step: "sv_reach render s \<Longrightarrow> sv_step render s s' \<Longrightarrow> sv_reach render s'"

definition sv_ok :: "server \<Rightarrow> bool" where
  "sv_ok s \<longleftrightarrow> net_ok (sv_net s) \<and> welcome_ok (sv_net s) \<and> list_all clean_event (n_log (sv_net s))
     \<and> (\<forall>who. who \<in> set (sv_pending s) \<or> sv_next s \<le> who \<longrightarrow> fresh who (sv_net s))
     \<and> (\<forall>who \<in> set (sv_pending s). who < sv_next s)"

lemma grows_log: "grows P n n' \<Longrightarrow> list_all clean_event (n_log n) \<Longrightarrow> list_all clean_event (n_log n')"
  by (auto simp: grows_def)

lemma sv_ok_net:
  assumes "sv_ok s" "net_ok n'" "welcome_ok n'" "grows (\<lambda>_. True) (sv_net s) n'"
    "\<And>who. fresh who (sv_net s) \<Longrightarrow> fresh who n'"
  shows "sv_ok (s\<lparr>sv_net := n'\<rparr>)"
  using assms grows_log by (auto simp: sv_ok_def)

lemma sv_ok_same:
  assumes "sv_ok s" "net_ok n'" "regs n' = regs (sv_net s) \<or> (\<exists>w. regs n' = (regs (sv_net s))(w := None))"
    "grows no_welcome (sv_net s) n'"
  shows "sv_ok (s\<lparr>sv_net := n'\<rparr>)"
proof (rule sv_ok_net [OF assms(1,2)])
  show "welcome_ok n'" using assms welcome_ok_same welcome_ok_gone by (metis sv_ok_def)
qed (use assms fresh_frame grows_any in \<open>blast+\<close>)

lemma connect_frame: "grows no_welcome n (connect who n)"
proof -
  let ?n1 = "n\<lparr>n_connections_total := n_connections_total n + 1\<rparr>"
  have "grows no_welcome n (emit (EvConnected who) ?n1)"
    by (rule grows_from [OF grows_emit]) simp_all
  then show ?thesis by (rule grows_to) (simp_all add: connect_def Let_def)
qed

lemma sv_step_ok:
  assumes "sv_step render s s'" "sv_ok s"
  shows "sv_ok s'"
  using assms
proof (cases rule: sv_step.cases)
  case accept
  with assms(2) show ?thesis by (auto simp: sv_ok_def less_Suc_eq)
next
  case (handshake_failed who)
  with assms(2) show ?thesis by (auto simp: sv_ok_def)
next
  case (connected who)
  let ?n = "sv_net s"
  have fresh: "fresh who ?n" "who < sv_next s" using assms(2) connected by (auto simp: sv_ok_def)
  then have "hm_get (n_clients ?n) who = None" by (simp add: fresh_def regs_def)
  then have "net_ok (connect who ?n)" using assms(2) by (simp add: sv_ok_def net_ok_connect)
  moreover have "welcomes x (connect who ?n) = welcomes x ?n" for x by (rule grows_welcomes [OF connect_frame])
  then have "welcome_ok (connect who ?n)"
    using assms(2) fresh by (simp add: sv_ok_def welcome_ok_def regs_connect fresh_def)
  moreover have "fresh x (connect who ?n)" if "fresh x ?n" "x \<noteq> who" for x
    using that grows_welcomes [OF connect_frame] by (simp add: fresh_def regs_connect)
  ultimately show ?thesis
    using assms(2) connected fresh(2) grows_log [OF connect_frame] by (auto simp: sv_ok_def)
next
  case (line who cmd)
  have ok: "net_ok (sv_net s)" "welcome_ok (sv_net s)" using assms(2) by (simp_all add: sv_ok_def)
  note shape = shape_handle [OF ok(1), of who render cmd]
  show ?thesis unfolding line(1)
    using assms(2) net_ok_handle [OF ok(1)] welcome_ok_shape [OF shape ok(2)] grows_handle fresh_shape [OF shape]
    by (rule sv_ok_net)
next
  case (disconnected who reason)
  have "net_ok (sv_net s)" using assms(2) by (simp add: sv_ok_def)
  with assms(2) show ?thesis unfolding disconnected(1)
    using net_ok_disconnect regs_disconnect [OF net_ok_inv] grows_disconnect by (intro sv_ok_same) auto
next
  case (idle who)
  have "net_ok (sv_net s)" using assms(2) by (simp add: sv_ok_def)
  with assms(2) show ?thesis unfolding idle(1)
    by (intro sv_ok_same) (auto simp: net_ok_quiet [OF quiet_ping] regs_out ping_def intro!: grows_send)
next
  case (admin cmd)
  have "net_ok (sv_net s)" using assms(2) by (simp add: sv_ok_def)
  with assms(2) show ?thesis unfolding admin(1)
    using run_admin_frame [of "sv_net s" cmd] net_ok_run_admin by (intro sv_ok_same) auto
next
  case (clock t)
  have "net_ok ((sv_net s)\<lparr>n_now := t\<rparr>)" using assms(2) by (simp add: sv_ok_def net_ok_def net_inv_def)
  with assms(2) show ?thesis unfolding clock(1)
    by (intro sv_ok_same) (auto simp: regs_def fun_eq_iff intro: grows_same)
qed

lemma server_start_ok: "sv_ok (server_start name network version now)"
proof -
  let ?n = "new_net name network version now"
  have "net_ok (observe ?n)" using new_net_ok by (simp add: observe_def net_ok_def net_inv_def)
  moreover have "n_out (observe ?n) = []" "n_log (observe ?n) = []" "n_clients (observe ?n) = []"
    by (simp_all add: observe_def new_net_def)
  ultimately show ?thesis
    by (simp add: sv_ok_def server_start_def welcome_ok_def regs_def welcomes_def fresh_def)
qed

lemma sv_reach_ok: "sv_reach render s \<Longrightarrow> sv_ok s"
  by (induction rule: sv_reach.induct) (auto intro: server_start_ok sv_step_ok)

section \<open>Deliveries\<close>

lemma send_each_out:
  "(\<And>x. x \<in> set xs \<Longrightarrow> hm_has (n_clients n) x) \<Longrightarrow>
    n_out (send_each xs m skip n) = n_out n @ map (\<lambda>x. (x, m)) (filter (\<lambda>x. Some x \<noteq> skip) xs)"
proof (induction xs arbitrary: n)
  case (Cons x xs)
  let ?n' = "if Some x \<noteq> skip then send x m n else n"
  have "n_clients ?n' = n_clients n" by simp
  then have "n_out (send_each xs m skip ?n') = n_out ?n' @ map (\<lambda>x. (x, m)) (filter (\<lambda>x. Some x \<noteq> skip) xs)"
    using Cons by (intro Cons.IH) simp
  with Cons.prems [of x] show ?case by (simp add: send_def)
qed simp

lemma member_connected:
  assumes "net_inv b n" "hm_get (n_rooms n) key = Some r" "x \<in> set (r_members r)"
  shows "\<exists>c. hm_get (n_clients n) x = Some c \<and> key \<in> set (cl_channels c) \<and> cl_registered c"
proof -
  have "key \<in> set (joined_by (map_of (n_clients n)) x)"
    using members_agreeD [OF net_invD(7) [OF assms(1)], of x key] assms(2,3) by simp
  then obtain c where "hm_get (n_clients n) x = Some c" "key \<in> set (cl_channels c)"
    by (cases "hm_get (n_clients n) x") (auto simp: joined_by_def)
  moreover from this have "cl_registered c"
    using net_invD(5) [OF assms(1)] by (fastforce simp: clients_ok_def)
  ultimately show ?thesis by blast
qed

lemma broadcast_out:
  assumes "net_inv b n" "hm_get (n_rooms n) key = Some r"
  shows "n_out (broadcast key m skip n) = n_out n @ map (\<lambda>x. (x, m)) (filter (\<lambda>x. Some x \<noteq> skip) (r_members r))"
  using assms member_connected [OF assms] by (simp add: broadcast_def, subst send_each_out) auto

lemma tell_loop_out:
  "distinct xs \<Longrightarrow> (\<And>x. x \<in> set xs \<Longrightarrow> hm_has (n_clients n) x) \<Longrightarrow>
    n_out (snd (tell_loop m xs told n)) = n_out n @ map (\<lambda>x. (x, m)) (filter (\<lambda>x. x \<notin> set told) xs)
    \<and> set (fst (tell_loop m xs told n)) = set xs \<union> set told"
proof (induction xs arbitrary: told n)
  case (Cons x xs)
  show ?case
  proof (cases "x \<in> set told")
    case True
    then show ?thesis using Cons.IH [of n told] Cons.prems by auto
  next
    case False
    have "filter (\<lambda>y. y \<notin> set (x # told)) xs = filter (\<lambda>y. y \<notin> set told) xs"
      using Cons.prems(1) by (intro filter_cong) auto
    moreover have "hm_has (n_clients n) x" using Cons.prems(2) by simp
    ultimately show ?thesis
      using False Cons.IH [of "send x m n" "x # told"] Cons.prems by (auto simp: send_def)
  qed
qed simp

definition peers :: "nat \<Rightarrow> net \<Rightarrow> nat set" where
  "peers who n = {x. x \<noteq> who \<and> (\<exists>key. in_room who key n \<and> in_room x key n)}"

text \<open>Everybody in the rooms named by \<open>names\<close> but \<open>who\<close> and those already told, each once.\<close>

lemma quit_loop_out:
  assumes "\<And>k r. hm_get (n_rooms n) k = Some r \<Longrightarrow> distinct (r_members r)"
    and "\<And>k r x. hm_get (n_rooms n) k = Some r \<Longrightarrow> x \<in> set (r_members r) \<Longrightarrow> x \<noteq> who \<Longrightarrow> hm_has (n_clients n) x"
  shows "\<exists>ps. n_out (quit_loop who m names told n) = n_out n @ map (\<lambda>x. (x, m)) ps \<and> distinct ps
    \<and> set ps = (\<Union>k \<in> set names. set (members_at (map_of (n_rooms n)) k)) - {who} - set told"
  using assms
proof (induction names arbitrary: told n)
  case (Cons name names)
  show ?case
  proof (cases "hm_get (n_rooms n) name")
    case None
    then show ?thesis using Cons.IH [of n told] Cons.prems by (simp add: members_at_def)
  next
    case (Some r)
    let ?r = "drop_member who r" and ?n1 = "n\<lparr>n_rooms := hm_insert name (drop_member who r) (n_rooms n)\<rparr>"
    let ?ps = "filter (\<lambda>x. x \<notin> set told) (r_members ?r)"
    obtain told' n' where loop: "tell_loop m (r_members ?r) told ?n1 = (told', n')" by fastforce
    have "distinct (r_members ?r)" using Cons.prems(1) [OF Some] by (simp add: drop_member_def distinct_removeAll)
    moreover have "hm_has (n_clients ?n1) x" if "x \<in> set (r_members ?r)" for x
      using Cons.prems(2) [OF Some, of x] that by (simp add: drop_member_def)
    ultimately have out: "n_out n' = n_out n @ map (\<lambda>x. (x, m)) ?ps" "set told' = set (r_members ?r) \<union> set told"
      using tell_loop_out [of "r_members ?r" ?n1 m told] loop by simp_all
    have q: "quiet ?n1 n'" using quiet_tell_loop [of ?n1 m "r_members ?r" told] loop by simp
    have rooms: "map_of (n_rooms n') = (map_of (n_rooms n))(name \<mapsto> ?r)"
      using quiet_fields(6) [OF q] by (simp add: map_simps)
    have "\<exists>ps. n_out (quit_loop who m names told' n') = n_out n' @ map (\<lambda>x. (x, m)) ps \<and> distinct ps
      \<and> set ps = (\<Union>k \<in> set names. set (members_at (map_of (n_rooms n')) k)) - {who} - set told'"
    proof (rule Cons.IH)
      show "distinct (r_members r')" if "hm_get (n_rooms n') k = Some r'" for k r'
        using that Cons.prems(1) Some by (auto simp: rooms drop_member_def distinct_removeAll split: if_splits)
      show "hm_has (n_clients n') x"
        if "hm_get (n_rooms n') k = Some r'" "x \<in> set (r_members r')" "x \<noteq> who" for k r' x
        using that Cons.prems(2) Some quiet_fields(4) [OF q]
        by (auto simp: rooms drop_member_def split: if_splits)
    qed
    then obtain ps where ps: "n_out (quit_loop who m names told' n') = n_out n' @ map (\<lambda>x. (x, m)) ps" "distinct ps"
      "set ps = (\<Union>k \<in> set names. set (members_at (map_of (n_rooms n')) k)) - {who} - set told'" by blast
    have mem: "set (members_at (map_of (n_rooms n')) k) - {who} = set (members_at (map_of (n_rooms n)) k) - {who}" for k
      using Some by (auto simp: rooms members_at_upd drop_member_def)
    have "quit_loop who m (name # names) told n = quit_loop who m names told' n'"
      using Some loop by (simp add: drop_member_def Let_def)
    moreover have "distinct (?ps @ ps)"
      using ps(2,3) out(2) \<open>distinct (r_members ?r)\<close> by auto
    moreover have "set (?ps @ ps) = (\<Union>k \<in> set (name # names). set (members_at (map_of (n_rooms n)) k)) - {who} - set told"
      using ps(3) out(2) mem Some by (auto simp: drop_member_def) blast+
    ultimately show ?thesis using ps(1) out(1) by (intro exI [of _ "?ps @ ps"]) simp
  qed
qed simp

end
