(* ===== verification/Network_Props.thy ===== *)
theory Network_Props
  imports Network_Sys
begin

text \<open>
  The properties of the server: consistency of every reachable state, the delivery of messages and
  departures, who may do what, and what the operator's log may show.
\<close>

section \<open>Helper facts\<close>

lemma in_room_get: "in_room who key n \<longleftrightarrow> who \<in> set (members_at (map_of (n_rooms n)) key)"
  by (simp add: in_room_def members_at_def split: option.splits)

lemma member_registered:
  assumes "net_ok n" "in_room who key n"
  shows "is_registered who n" "hm_has (n_clients n) who"
proof -
  obtain r where "hm_get (n_rooms n) key = Some r" "who \<in> set (r_members r)"
    using assms(2) by (auto simp: in_room_def split: option.splits)
  from member_connected [OF net_ok_inv [OF assms(1)] this]
  show "is_registered who n" "hm_has (n_clients n) who" by (auto simp: is_registered_def)
qed

lemma disconnect_told:
  assumes n: "net_ok n" and c: "hm_get (n_clients n) who = Some c"
  shows "\<exists>ps. n_out (disconnect who reason n) = n_out n @ map (\<lambda>x. (x, \<lparr>msg_prefix = Some (client_prefix c),
       msg_command = QUIT (Some (case cl_quit_reason c of Some q \<Rightarrow> q | None \<Rightarrow> reason))\<rparr>)) ps
    \<and> distinct ps \<and> set ps = peers who n"
proof -
  define said where "said = (case cl_quit_reason c of Some q \<Rightarrow> q | None \<Rightarrow> reason)"
  define quit where "quit = \<lparr>msg_prefix = Some (client_prefix c), msg_command = QUIT (Some said)\<rparr>"
  define n1 where "n1 = n\<lparr>n_clients := hm_remove who (n_clients n),
      n_nicks := (case cl_nick c of Some nick \<Rightarrow> hm_remove (fold_name nick) (n_nicks n) | None \<Rightarrow> n_nicks n)\<rparr>"
  define n2 where "n2 = (case cl_nick c of
      Some nick \<Rightarrow> emit (if cl_registered c then EvQuit nick said else EvDropped who said) n1
    | None \<Rightarrow> emit (EvDropped who said) n1)"
  note inv = net_ok_inv [OF n] and ok = net_okD [OF n]
  have res: "n_out (disconnect who reason n) = n_out (quit_loop who quit (cl_channels c) [] n2)"
    unfolding disconnect_def n2_def n1_def said_def quit_def by (simp only: c option.case Let_def) simp
  have q: "quiet n1 n2" by (simp add: n2_def split: option.splits)
  have out: "n_out n2 = n_out n" by (simp add: n2_def n1_def emit_def split: option.splits)
  have rooms: "n_rooms n2 = n_rooms n" "n_clients n2 = hm_remove who (n_clients n)"
    using quiet_fields [OF q] by (simp_all add: n1_def)
  have "\<exists>ps. n_out (quit_loop who quit (cl_channels c) [] n2) = n_out n2 @ map (\<lambda>x. (x, quit)) ps \<and> distinct ps
      \<and> set ps = (\<Union>k \<in> set (cl_channels c). set (members_at (map_of (n_rooms n2)) k)) - {who} - set []"
    using ok(7) member_connected [OF inv]
    by (intro quit_loop_out) (fastforce simp: rooms map_simps rooms_ok_def room_ok_def)+
  moreover have "(\<Union>k \<in> set (cl_channels c). set (members_at (map_of (n_rooms n)) k)) - {who} = peers who n"
    using members_agreeD [OF ok(8), of who] c by (auto simp: peers_def in_room_get)
  ultimately show ?thesis using res out rooms by (auto simp: said_def quit_def)
qed

lemma kick_other_room:
  assumes "net_ok n" "key \<noteq> fold_name name"
  shows "hm_get (n_rooms (srv_on_kick who name nick reason n)) key = hm_get (n_rooms n) key"
proof -
  have "hm_get (n_rooms (leave_room k v n)) key = hm_get (n_rooms n) key" if "k \<noteq> key" for k v n
    using that by (auto simp: leave_room_def Let_def map_simps split: option.splits)
  then show ?thesis
    using assms(2) by (auto simp: srv_on_kick_def kick_member_def Let_def split: option.splits)
qed

lemma kick_not_operator:
  assumes "hm_get (n_rooms n) key = Some r" "who \<notin> set (r_operators r)" "net_ok n"
  shows "hm_get (n_rooms (srv_on_kick who name nick reason n)) key = Some r"
proof (cases "key = fold_name name")
  case True
  with assms show ?thesis by (auto simp: srv_on_kick_def Let_def)
qed (use assms kick_other_room in simp)

lemma kick_loop_not_operator:
  "hm_get (n_rooms n) key = Some r \<Longrightarrow> who \<notin> set (r_operators r) \<Longrightarrow> net_ok n \<Longrightarrow>
    hm_get (n_rooms (kick_loop who channels reason i nicks n)) key = Some r"
proof (induction who channels reason i nicks n rule: kick_loop.induct)
  case (2 who channels reason i nick nicks n)
  then show ?case
    by (cases "kick_channel channels i") (simp_all add: kick_not_operator net_ok_on_kick)
qed simp

lemma find_boundary_greatest: "is_char_boundary s k \<Longrightarrow> k \<le> e \<Longrightarrow> k \<le> find_boundary s e"
  by (induction e) (auto simp: le_Suc_eq)

text \<open>The command set open to a connection that has not registered.\<close>

fun before_registration :: "command \<Rightarrow> bool" where
  "before_registration (CAP _ _ _ _) = True"
| "before_registration (NICK _) = True"
| "before_registration (USER _ _ _) = True"
| "before_registration (PASS _) = True"
| "before_registration (PING _ _) = True"
| "before_registration (PONG _ _) = True"
| "before_registration (QUIT _) = True"
| "before_registration _ = False"

lemma modify_id: "(\<And>v. map_of m k = Some v \<Longrightarrow> f v = v) \<Longrightarrow> AList.map_entry k f m = m"
  by (induction m) auto

lemma set_op_refused:
  assumes "set_op channel nick give n = (n', Inl e)"
  shows "n' = n"
proof (cases "member_of channel nick n")
  case (Inr p)
  obtain key who where p: "p = (key, who)" by (cases p)
  from member_of_Inr [of channel nick n key who] Inr p
  obtain r where r: "hm_get (n_rooms n) key = Some r" by (auto simp: in_room_def split: option.splits)
  let ?f = "\<lambda>r. r\<lparr>r_operators := (if give then hs_insert who (r_operators r) else hs_remove who (r_operators r))\<rparr>"
  have "(who \<in> set (r_operators r)) = give" and n': "n' = n\<lparr>n_rooms := hm_modify key ?f (n_rooms n)\<rparr>"
    using assms Inr p r by (auto simp: set_op_def Let_def split: if_splits)
  then have "?f r = r" by (cases r) (auto simp: hs_insert_def removeAll_id)
  then have "hm_modify key ?f (n_rooms n) = n_rooms n" 
    using r by (intro modify_id) (simp only: option.inject)
  then show ?thesis using n' by simp
qed (use assms in \<open>simp add: set_op_def\<close>)

lemma execute_refused: "execute cmd n = (n', Inl e) \<Longrightarrow> n' = n"
  by (cases cmd) (auto simp: Let_def set_op_refused split: sum.splits if_splits prod.splits)

section \<open>Membership as a relation\<close>

text \<open>
  The abstract view of the rooms: who is where. Joining adds pairs, leaving and quitting take pairs
  away; creation and removal of rooms, replies and logs are not part of it.
\<close>

definition roster :: "net \<Rightarrow> (ustring \<times> nat) set" where
  "roster n = {(key, who). in_room who key n}"

definition spec_join :: "nat \<Rightarrow> ustring list \<Rightarrow> (ustring \<times> nat) set \<Rightarrow> (ustring \<times> nat) set" where
  "spec_join who targets R = R \<union> (\<lambda>t. (fold_name t, who)) ` set (filter valid_channel targets)"

definition spec_part :: "nat \<Rightarrow> ustring list \<Rightarrow> (ustring \<times> nat) set \<Rightarrow> (ustring \<times> nat) set" where
  "spec_part who targets R = R - (\<lambda>t. (fold_name t, who)) ` set targets"

definition spec_gone :: "nat \<Rightarrow> (ustring \<times> nat) set \<Rightarrow> (ustring \<times> nat) set" where
  "spec_gone who R = R - UNIV \<times> {who}"

lemma roster_quiet: "quiet n n' \<Longrightarrow> roster n' = roster n"
  by (simp add: roster_def in_room_quiet)

lemma roster_enter: "roster (enter_room who name n) = insert (fold_name name, who) (roster n)"
  by (auto simp: roster_def in_room_def enter_room_def Let_def map_simps split: option.splits if_splits)

lemma removeAll_Nil_iff: "removeAll x xs = [] \<longleftrightarrow> set xs \<subseteq> {x}"
  by (induction xs) auto

lemma roster_leave: "roster (leave_room key who n) = roster n - {(key, who)}"
proof -
  have "in_room x k (leave_room key who n) \<longleftrightarrow> in_room x k n \<and> (k, x) \<noteq> (key, who)" for x k
  proof (cases "hm_get (n_rooms n) key")
    case (Some r)
    then show ?thesis
      by (cases "k = key") (auto simp: in_room_def leave_room_def Let_def map_simps removeAll_Nil_iff)
  qed (auto simp: in_room_def leave_room_def Let_def)
  then show ?thesis by (auto simp: roster_def)
qed

lemma roster_on_join: "roster (srv_on_join who name n) = spec_join who [name] (roster n)"
proof -
  let ?n1 = "enter_room who name n"
  have "quiet ?n1 (srv_on_join who name n)" if "valid_channel name" "\<not> in_room who (fold_name name) n"
    using that unfolding srv_on_join_def Let_def
    by (auto intro!: quiet_trans [OF _ quiet_send_names] quiet_trans [OF _ quiet_send_topic]
        quiet_trans [OF _ quiet_emit] quiet_trans [OF _ quiet_broadcast] quiet_trans [OF _ quiet_send])
  moreover have "in_room who (fold_name name) n \<Longrightarrow> insert (fold_name name, who) (roster n) = roster n"
    by (auto simp: roster_def)
  ultimately show ?thesis
    using roster_quiet [of ?n1] roster_quiet [OF quiet_numeric_args]
    by (cases "valid_channel name"; cases "in_room who (fold_name name) n")
      (simp_all add: spec_join_def roster_enter, simp_all add: srv_on_join_def)
qed

lemma roster_on_part: "roster (srv_on_part who name reason n) = spec_part who [name] (roster n)"
proof (cases "in_room who (fold_name name) n")
  case True
  then obtain r where r: "hm_get (n_rooms n) (fold_name name) = Some r" "who \<in> set (r_members r)"
    by (auto simp: in_room_def split: option.splits)
  let ?m = "\<lparr>msg_prefix = Some (prefix_of who n), msg_command = PART (r_name r) reason\<rparr>"
  have "srv_on_part who name reason n = leave_room (fold_name name) who
      (emit (EvParted (nick_of who (broadcast (fold_name name) ?m None n)) (r_name r) reason)
        (broadcast (fold_name name) ?m None n))"
    using r by (simp add: srv_on_part_def Let_def)
  then show ?thesis
    by (simp add: roster_leave spec_part_def roster_quiet [OF quiet_emit] roster_quiet [OF quiet_broadcast])
next
  case False
  then have "quiet n (srv_on_part who name reason n)"
    by (auto simp: srv_on_part_def in_room_def Let_def split: option.splits)
  then have "roster (srv_on_part who name reason n) = roster n" by (rule roster_quiet)
  moreover have "(fold_name name, who) \<notin> roster n" using False by (simp add: roster_def)
  ultimately show ?thesis by (simp add: spec_part_def)
qed

lemma roster_joins:
  "roster (foldl (\<lambda>n t. srv_on_join who t n) n ts) = spec_join who ts (roster n)"
proof (induction ts arbitrary: n)
  case (Cons t ts)
  show ?case unfolding foldl_Cons Cons.IH roster_on_join by (auto simp: spec_join_def)
qed (simp add: spec_join_def)

lemma roster_parts:
  "roster (foldl (\<lambda>n t. srv_on_part who t reason n) n ts) = spec_part who ts (roster n)"
proof (induction ts arbitrary: n)
  case (Cons t ts)
  show ?case unfolding foldl_Cons Cons.IH roster_on_part by (auto simp: spec_part_def)
qed (simp add: spec_part_def)

lemma in_room_disconnect:
  assumes "net_inv b n"
  shows "in_room x key (disconnect who reason n) \<longleftrightarrow> in_room x key n \<and> x \<noteq> who"
proof (cases "hm_get (n_clients n) who")
  case None
  have "\<not> in_room who key n"
    using members_agreeD [OF net_invD(7) [OF assms], of who key] None by (simp add: in_room_get joined_by_def)
  with None show ?thesis by (auto simp: disconnect_def)
next
  case (Some c)
  show ?thesis
    using disconnect_effect(6) [OF assms Some, of reason key]
    by (cases "hm_get (n_rooms n) key")
      (auto simp: in_room_def room_without_def drop_member_def removeAll_Nil_iff split: if_splits)
qed

lemma roster_disconnect: "net_inv b n \<Longrightarrow> roster (disconnect who reason n) = spec_gone who (roster n)"
  by (auto simp: roster_def in_room_disconnect spec_gone_def)

lemma roster_close: "net_inv b n \<Longrightarrow> roster (close who reason n) = spec_gone who (roster n)"
proof -
  assume n: "net_inv b n"
  show ?thesis unfolding close_def Let_def
    by (subst roster_disconnect [OF close_prepared [OF n]]) (simp add: roster_def in_room_def)
qed

lemma roster_kick_member:
  "roster (kick_member key victim by_whom reason n) = roster n - {(key, victim)}"
proof (cases "hm_get (n_rooms n) key")
  case None
  then show ?thesis by (auto simp: kick_member_def roster_def in_room_def)
next
  case (Some r)
  then show ?thesis
    by (simp add: kick_member_def Let_def roster_leave roster_quiet [OF quiet_emit] roster_quiet [OF quiet_broadcast])
qed

lemma roster_kick_all: "roster (kick_all key why xs n) = roster n - {key} \<times> set xs"
  by (induction key why xs n rule: kick_all.induct) (auto simp: roster_kick_member)

section \<open>A small network\<close>

text \<open>Two clients, \<open>ann\<close> and \<open>bob\<close>, in the room \<open>#a\<close> that \<open>ann\<close> opened.\<close>

abbreviation no_render :: "command \<Rightarrow> ustring" where
  "no_render \<equiv> \<lambda>_. []"

definition ex_open :: net where
  "ex_open = connect 2 (connect 1 (new_net (U ''srv'') (U ''net'') [] 0))"

definition ex_ann :: net where
  "ex_ann = handle no_render 1 (USER (U ''ann'') [] []) (handle no_render 1 (NICK (U ''ann'')) ex_open)"

definition ex_bob :: net where
  "ex_bob = handle no_render 2 (USER (U ''bob'') [] []) (handle no_render 2 (NICK (U ''bob'')) ex_ann)"

definition ex_net :: net where
  "ex_net = handle no_render 2 (JOIN (U ''#a'') None None) (handle no_render 1 (JOIN (U ''#a'') None None) ex_bob)"

lemmas ex_eval = handle_def srv_on_nick_def srv_on_user_def try_register_def claim_nick_def valid_nick_def
  fold_name_def to_ascii_lowercase_def ascii_lower_def starts_with_def is_control_def utf8_len_def
  is_registered_def new_client_def trim_def trim_start_def trim_end_def trim_start_matches_def trim_end_matches_def
  is_whitespace_def NICK_LEN_def Let_def

lemma ex_open_fields:
  "n_clients ex_open = [(1, new_client 0), (2, new_client 0)]" "n_nicks ex_open = []" "n_rooms ex_open = []"
  "n_banned ex_open = []"
  by (simp_all add: ex_open_def connect_def new_net_def Let_def emit_def)

lemma ex_ann_fields:
  "n_clients ex_ann = [(1, (new_client 0)\<lparr>cl_nick := Some (U ''ann''), cl_user := Some (U ''ann''),
     cl_real := Some [], cl_registered := True\<rparr>), (2, new_client 0)]"
  "n_nicks ex_ann = [(U ''ann'', 1)]" "n_rooms ex_ann = []" "n_banned ex_ann = []"
  by (simp_all add: ex_ann_def ex_open_fields ex_eval)

lemma ex_bob_fields:
  "n_clients ex_bob = [(1, (new_client 0)\<lparr>cl_nick := Some (U ''ann''), cl_user := Some (U ''ann''),
     cl_real := Some [], cl_registered := True\<rparr>),
    (2, (new_client 0)\<lparr>cl_nick := Some (U ''bob''), cl_user := Some (U ''bob''),
     cl_real := Some [], cl_registered := True\<rparr>)]"
  "n_nicks ex_bob = [(U ''ann'', 1), (U ''bob'', 2)]" "n_rooms ex_bob = []" "n_banned ex_bob = []"
  by (simp_all add: ex_bob_def ex_ann_fields ex_eval)

lemma ex_net_fields:
  "n_clients ex_net = [(1, (new_client 0)\<lparr>cl_nick := Some (U ''ann''), cl_user := Some (U ''ann''),
     cl_real := Some [], cl_registered := True, cl_channels := [U ''#a'']\<rparr>),
    (2, (new_client 0)\<lparr>cl_nick := Some (U ''bob''), cl_user := Some (U ''bob''),
     cl_real := Some [], cl_registered := True, cl_channels := [U ''#a'']\<rparr>)]"
  "n_nicks ex_net = [(U ''ann'', 1), (U ''bob'', 2)]"
  "n_rooms ex_net = [(U ''#a'', \<lparr>r_name = U ''#a'', r_topic = None, r_members = hs_insert 2 [1], r_operators = [1]\<rparr>)]"
  "n_banned ex_net = []"
  by (simp_all add: ex_net_def ex_bob_fields ex_eval registered_command_def comma_list_def srv_on_join_def
      valid_channel_def is_channel_def CHANNEL_LEN_def in_room_def enter_room_def hs_insert_def)

lemma ex_net_ok: "net_ok ex_net"
proof -
  have "net_ok ex_open"
    unfolding ex_open_def
    by (intro net_ok_connect new_net_ok) (simp_all add: connect_def new_net_def Let_def emit_def)
  then show ?thesis unfolding ex_net_def ex_bob_def ex_ann_def by (intro net_ok_handle)
qed

section \<open>Properties\<close>

text \<open>
  C1: In every state the running server can reach, for any interleaving of
  connections, lines, disconnections, timers and operator commands, the indexes agree: the nick
  index and the connections, the member lists and what each connection has joined; operators are
  members; no room is empty; whoever is registered has a valid nick and a user name; no banned nick
  is in use; topics keep their bound and the message of the day is never empty.
\<close>

theorem server_consistent:
  assumes "sv_reach render s"
  shows "net_ok (sv_net s)"
  using sv_reach_ok [OF assms] by (simp add: sv_ok_def)

text \<open>A state reached by accepting a connection, its handshake, a line, and an operator's ban.\<close>

definition ex_server :: server where
  "ex_server = \<lparr>sv_net = fst (run_admin (AcBan (U ''eve'') None)
     (handle no_render 1 (NICK (U ''ann''))
       (connect 1 (observe (new_net (U ''srv'') (U ''net'') [] 0))))), sv_next = 2, sv_pending = []\<rparr>"

lemma ex_server_reach: "sv_reach no_render ex_server"
proof -
  define s0 where "s0 = server_start (U ''srv'') (U ''net'') [] 0"
  define s1 where "s1 = s0\<lparr>sv_next := sv_next s0 + 1, sv_pending := sv_next s0 # sv_pending s0\<rparr>"
  define s2 where "s2 = s1\<lparr>sv_net := connect 1 (sv_net s1), sv_pending := removeAll 1 (sv_pending s1)\<rparr>"
  define s3 where "s3 = s2\<lparr>sv_net := handle no_render 1 (NICK (U ''ann'')) (sv_net s2)\<rparr>"
  define s4 where "s4 = s3\<lparr>sv_net := fst (run_admin (AcBan (U ''eve'') None) (sv_net s3))\<rparr>"
  have "sv_reach no_render s0" unfolding s0_def by (rule sv_reach.start)
  then have "sv_reach no_render s1" unfolding s1_def by (rule sv_reach.step) (rule sv_step.accept)
  then have "sv_reach no_render s2"
    unfolding s2_def by (rule sv_reach.step) (rule sv_step.connected, simp add: s1_def s0_def server_start_def)
  then have "sv_reach no_render s3" unfolding s3_def by (rule sv_reach.step) (rule sv_step.line)
  then have "sv_reach no_render s4" unfolding s4_def by (rule sv_reach.step) (rule sv_step.admin)
  moreover have "s4 = ex_server"
    by (simp add: s4_def s3_def s2_def s1_def s0_def ex_server_def server_start_def)
  ultimately show ?thesis by simp
qed

theorem server_consistent_witness: "net_ok (sv_net ex_server)"
  by (rule server_consistent [OF ex_server_reach])

text \<open>
  C21: In every reachable state two connections never hold nicks that differ only in
  letter case.
\<close>

theorem nick_held_once:
  assumes "sv_reach render s"
    and "hm_get (n_clients (sv_net s)) a = Some ca" "cl_nick ca = Some x"
    and "hm_get (n_clients (sv_net s)) b = Some cb" "cl_nick cb = Some y"
    and "fold_name x = fold_name y"
  shows "a = b"
proof -
  have "net_ok (sv_net s)" using sv_reach_ok [OF assms(1)] by (simp add: sv_ok_def)
  note agree = nicks_agreeD [OF net_okD(5) [OF this], of "fold_name x"]
  from agree [of a] agree [of b] assms show ?thesis by (simp add: held_key_def)
qed

theorem nick_held_once_witness:
  "{b. \<exists>cb y. hm_get (n_clients (sv_net ex_server)) b = Some cb \<and> cl_nick cb = Some y
      \<and> fold_name y = fold_name (U ''ann'')} = {1}"
proof -
  obtain ca where ca: "hm_get (n_clients (sv_net ex_server)) 1 = Some ca" "cl_nick ca = Some (U ''ann'')"
    by (simp add: ex_server_def run_admin_def ex_eval connect_def observe_def new_net_def)
  with nick_held_once [OF ex_server_reach _ _ ca] show ?thesis by fast
qed

text \<open>
  C4: A message to a room by one of its members reaches every other member
  exactly once and nobody else, the sender included, with the sender's own prefix; and nothing else
  is sent.
\<close>

theorem channel_message_once:
  assumes "net_ok n" "is_channel target" "body \<noteq> []"
    and "hm_get (n_rooms n) (fold_name target) = Some r" "who \<in> set (r_members r)"
  shows "n_out (handle render who (PRIVMSG target body) n) = n_out n
      @ map (\<lambda>x. (x, \<lparr>msg_prefix = Some (prefix_of who n), msg_command = PRIVMSG target body\<rparr>))
          (filter (\<lambda>x. x \<noteq> who) (r_members r))
    \<and> distinct (r_members r)"
proof
  let ?n1 = "n\<lparr>n_messages_total := n_messages_total n + 1\<rparr>"
  define n2 where "n2 = emit (EvMessage (nick_of who ?n1) target (Some body) False) ?n1"
  have inv: "net_inv (n_banned n) n2"
    using net_ok_inv [OF assms(1)] by (simp add: n2_def net_inv_def)
  have here: "in_room who (fold_name target) n" using assms(4,5) by (simp add: in_room_def)
  note reg = member_registered [OF assms(1) here]
  have "target \<noteq> []" using assms(2) by (auto simp: is_channel_def starts_with_def)
  then have res: "handle render who (PRIVMSG target body) n = broadcast (fold_name target)
      \<lparr>msg_prefix = Some (prefix_of who n), msg_command = PRIVMSG target body\<rparr> (Some who) n2"
    using assms(2-5) reg by (simp add: handle_def registered_command_def srv_on_message_def Let_def n2_def
        reportable_def in_room_def)
  have "n_out n2 = n_out n" by (simp add: n2_def emit_def)
  moreover have "hm_get (n_rooms n2) (fold_name target) = Some r" using assms(4) by (simp add: n2_def)
  ultimately show "n_out (handle render who (PRIVMSG target body) n) = n_out n
      @ map (\<lambda>x. (x, \<lparr>msg_prefix = Some (prefix_of who n), msg_command = PRIVMSG target body\<rparr>))
          (filter (\<lambda>x. x \<noteq> who) (r_members r))"
    unfolding res using broadcast_out [OF inv] by simp
  show "distinct (r_members r)"
    using net_okD(7) [OF assms(1)] assms(4) by (simp add: rooms_ok_def room_ok_def)
qed

theorem channel_message_once_witness:
  "n_out (handle no_render 1 (PRIVMSG (U ''#A'') (U ''hi'')) ex_net)
     = n_out ex_net @ [(2, \<lparr>msg_prefix = Some (Nickname (U ''ann'') (U ''ann'') HOST),
         msg_command = PRIVMSG (U ''#A'') (U ''hi'')\<rparr>)]"
proof -
  have room: "hm_get (n_rooms ex_net) (fold_name (U ''#A'')) = Some
      \<lparr>r_name = U ''#a'', r_topic = None, r_members = hs_insert 2 [1], r_operators = [1]\<rparr>"
    by (simp add: ex_net_fields fold_name_def to_ascii_lowercase_def ascii_lower_def)
  have prefix: "prefix_of 1 ex_net = Nickname (U ''ann'') (U ''ann'') HOST"
    by (simp add: prefix_of_def ex_net_fields client_prefix_def client_nick_def)
  show ?thesis
    using channel_message_once [OF ex_net_ok _ _ room, of "U ''hi''" 1 no_render]
    by (auto simp: is_channel_def starts_with_def prefix hs_insert_def simp del: One_nat_def)
qed

text \<open>
  C26: Whatever a registered client's NOTICE is addressed to, every message it
  causes is that NOTICE itself: no error and no other reply is ever sent for it.
\<close>

theorem notice_draws_no_reply:
  assumes "is_registered who n"
  shows "\<exists>ds. n_out (handle render who (NOTICE target body) n) = n_out n @ ds
    \<and> list_all (\<lambda>(x, m). m = \<lparr>msg_prefix = Some (prefix_of who n), msg_command = NOTICE target body\<rparr>) ds"
proof -
  let ?m = "\<lparr>msg_prefix = Some (prefix_of who n), msg_command = NOTICE target body\<rparr>"
  let ?P = "\<lambda>(x :: nat, m). m = ?m" and ?n1 = "n\<lparr>n_messages_total := n_messages_total n + 1\<rparr>"
  have one: "grows ?P n ?n1" by (rule grows_same) simp_all
  then have two: "grows ?P n (emit k ?n1)" for k by (rule grows_trans) (rule grows_emit)
  have "grows ?P n (handle render who (NOTICE target body) n)"
    using assms registered_client [OF assms] one two
    by (auto simp: handle_def registered_command_def srv_on_message_def Let_def
        intro!: grows_trans [OF _ grows_broadcast] grows_trans [OF _ grows_send] split: option.splits)
  then show ?thesis by (auto simp: grows_def)
qed

theorem notice_draws_no_reply_witness:
  "\<exists>ds. n_out (handle no_render 1 (NOTICE (U ''#nowhere'') (U ''hi'')) ex_net) = n_out ex_net @ ds
    \<and> list_all (\<lambda>(x, m). m = \<lparr>msg_prefix = Some (prefix_of 1 ex_net), msg_command = NOTICE (U ''#nowhere'') (U ''hi'')\<rparr>) ds"
  by (rule notice_draws_no_reply) (simp add: is_registered_def ex_net_fields)



text \<open>
  C3: When a connection ends, everybody who shared a room with it is sent one
  QUIT, however many rooms they shared, and nobody else is sent anything.
\<close>

theorem departure_told_once:
  assumes "net_ok n" "hm_get (n_clients n) who = Some c"
  shows "\<exists>ps. n_out (disconnect who reason n) = n_out n @ map (\<lambda>x. (x, \<lparr>msg_prefix = Some (client_prefix c),
       msg_command = QUIT (Some (case cl_quit_reason c of Some q \<Rightarrow> q | None \<Rightarrow> reason))\<rparr>)) ps
    \<and> distinct ps \<and> set ps = peers who n"
  by (rule disconnect_told [OF assms])

theorem departure_told_once_witness:
  "\<exists>c ps. n_out (disconnect 1 (U ''bye'') ex_net) = n_out ex_net @ map (\<lambda>x. (x, \<lparr>msg_prefix = Some (client_prefix c),
       msg_command = QUIT (Some (case cl_quit_reason c of Some q \<Rightarrow> q | None \<Rightarrow> U ''bye''))\<rparr>)) ps
    \<and> distinct ps \<and> set ps = peers 1 ex_net"
proof -
  obtain c where "hm_get (n_clients ex_net) 1 = Some c" by (simp add: ex_net_fields)
  from departure_told_once [OF ex_net_ok this, of "U ''bye''"] show ?thesis by blast
qed

text \<open>
  C8: A KICK, for any list of rooms and nicks, leaves a room exactly as it is
  when the sender is not one of its operators.
\<close>

theorem kick_needs_operator:
  assumes "net_ok n" "hm_get (n_rooms n) key = Some r" "who \<notin> set (r_operators r)"
  shows "hm_get (n_rooms (handle render who (KICK channels nicks reason) n)) key = Some r"
  using assms kick_loop_not_operator [of n key r who]
  by (simp add: handle_def registered_command_def)

theorem kick_needs_operator_witness:
  "hm_get (n_rooms (handle no_render 2 (KICK (U ''#a'') (U ''ann'') None) ex_net)) (U ''#a'')
     = Some \<lparr>r_name = U ''#a'', r_topic = None, r_members = hs_insert 2 [1], r_operators = [1]\<rparr>"
  by (rule kick_needs_operator [OF ex_net_ok]) (simp_all add: ex_net_fields)

text \<open>
  C27: The text of a message to a nick never reaches the operator's log: such a
  message adds at most one event, and that event carries no text.
\<close>

theorem private_text_unlogged:
  assumes "\<not> is_channel target" "is_registered who n"
  shows "n_log (handle render who (PRIVMSG target body) n) = n_log n
    \<or> n_log (handle render who (PRIVMSG target body) n)
        = n_log n @ [new_event (n_now n) (EvMessage (nick_of who n) target None False)]"
proof -
  have logs: "n_log (send x m n) = n_log n" for x m n by (simp add: send_def)
  then have "n_log (numeric_args x r a n) = n_log n" "n_log (numeric x r a n) = n_log n" for x r a n
    by (simp_all add: numeric_args_def numeric_def)
  moreover have "nick_of who (n\<lparr>n_messages_total := k\<rparr>) = nick_of who n" for k by (simp add: nick_of_def)
  ultimately show ?thesis
    using assms registered_client [OF assms(2)] logs
    by (auto simp: handle_def registered_command_def srv_on_message_def Let_def emit_def split: option.splits)
qed

theorem private_text_unlogged_witness:
  "n_log (handle no_render 1 (PRIVMSG (U ''bob'') (U ''secret'')) ex_net) = n_log ex_net
    \<or> n_log (handle no_render 1 (PRIVMSG (U ''bob'') (U ''secret'')) ex_net)
        = n_log ex_net @ [new_event (n_now ex_net) (EvMessage (nick_of 1 ex_net) (U ''bob'') None False)]"
  by (rule private_text_unlogged) (simp_all add: is_channel_def starts_with_def is_registered_def ex_net_fields)

text \<open>
  C28: In every reachable state no string of any logged event holds a control
  character or a character that changes the direction of text, whatever clients have sent.
\<close>

theorem log_is_escaped:
  assumes "sv_reach render s"
  shows "list_all clean_event (n_log (sv_net s))"
  using sv_reach_ok [OF assms] by (simp add: sv_ok_def)

theorem log_is_escaped_witness: "list_all clean_event (n_log (sv_net ex_server))"
  by (rule log_is_escaped [OF ex_server_reach])

text \<open>
  C2: In every reachable state a connected client has been sent the welcome
  numeric exactly once if it is registered and never if it is not, and no connection was ever sent
  it twice; the connection's task relies on that numeric to learn that registration is complete.
\<close>

theorem welcome_exactly_once:
  assumes "sv_reach render s"
  shows "welcomes who (sv_net s) \<le> 1
    \<and> (case hm_get (n_clients (sv_net s)) who of
         None \<Rightarrow> True
       | Some c \<Rightarrow> welcomes who (sv_net s) = (if cl_registered c then 1 else 0))"
proof -
  have fits: "welcome_fits (regs (sv_net s) who) (welcomes who (sv_net s))"
    using sv_reach_ok [OF assms] by (simp add: sv_ok_def welcome_ok_def)
  then show ?thesis
    using welcome_fits_le [OF fits] by (auto simp: regs_def split: option.splits)
qed

theorem welcome_exactly_once_witness:
  "welcomes 1 (sv_net ex_server) \<le> 1 \<and> welcomes 7 (sv_net ex_server) \<le> 1"
  using welcome_exactly_once [OF ex_server_reach, of 1] welcome_exactly_once [OF ex_server_reach, of 7] by blast

text \<open>
  C30: An operator command that is refused leaves the network exactly as it
  was but for the line in the operator's log that says so.
\<close>

theorem refusal_changes_nothing:
  assumes "run_admin cmd n = (n', Inl why)"
  shows "n' = emit (EvAdmin False why) n"
  using assms execute_refused [of cmd n] by (auto simp: run_admin_def split: prod.splits sum.splits)

theorem refusal_changes_nothing_witness:
  "fst (run_admin (AcOp (U ''#a'') (U ''ann'')) ex_net)
     = emit (EvAdmin False (U ''ann is already an operator in #a'')) ex_net"
proof -
  have "snd (run_admin (AcOp (U ''#a'') (U ''ann'')) ex_net) = Inl (U ''ann is already an operator in #a'')"
    by (simp add: run_admin_def set_op_def member_of_def channel_key_def registered_def ex_net_fields in_room_def
        fold_name_def to_ascii_lowercase_def ascii_lower_def is_registered_def shown_name_def nick_of_def
        client_nick_def hs_insert_def Let_def)
  then show ?thesis
    using refusal_changes_nothing [of "AcOp (U ''#a'') (U ''ann'')" ex_net] by (metis prod.collapse)
qed

text \<open>
  C33: Cutting a text to a number of bytes never slices inside a character: the
  slice exists, the result is a prefix of the text within the bound, and it is the longest one.
\<close>

theorem truncate_on_boundary:
  "slice_to s (find_boundary s bound) \<noteq> None
   \<and> prefix (truncate_bytes s bound) s \<and> blen (truncate_bytes s bound) \<le> bound
   \<and> (\<forall>t. \<not> (prefix t s \<and> blen t \<le> bound \<and> blen (truncate_bytes s bound) < blen t))"
proof -
  have longest: "blen t \<le> blen (truncate_bytes s bound)" if t: "prefix t s" "blen t \<le> bound" for t
  proof (cases "blen s \<le> bound")
    case True
    then show ?thesis using blen_prefix [OF t(1)] by (simp add: truncate_bytes_def)
  next
    case False
    obtain u where u: "slice_to s (find_boundary s bound) = Some u" using truncate_slice by blast
    have "is_char_boundary s (blen t)" using t(1) slice_to_prefix by (auto simp: prefix_def is_char_boundary_def)
    then have "blen t \<le> find_boundary s bound" using t(2) by (rule find_boundary_greatest)
    with False u slice_to_Some [OF u] show ?thesis by (simp add: truncate_bytes_def)
  qed
  then show ?thesis
    using truncate_slice [of s bound] truncate_bytes_prefix truncate_bytes_blen by (auto simp: not_less)
qed

text \<open>
  C5: On the view of who is in which room, JOIN adds the sender to every valid
  name of its list, PART takes the sender out of every name of its list, and QUIT takes the sender
  out of everything; no other membership changes.
\<close>

theorem membership_refines:
  assumes "net_ok n" "is_registered who n"
  shows "roster (handle render who (JOIN targets keys real) n) = spec_join who (comma_list targets) (roster n)
    \<and> roster (handle render who (PART targets reason) n) = spec_part who (comma_list targets) (roster n)
    \<and> roster (handle render who (QUIT reason) n) = spec_gone who (roster n)"
  using registered_client [OF assms(2)] assms(2) roster_close [OF net_ok_inv [OF assms(1)]]
  by (auto simp: handle_def registered_command_def roster_joins roster_parts)

theorem membership_refines_witness:
  "roster (handle no_render 2 (JOIN (U ''#b,bad,#A'') None None) ex_net)
     = spec_join 2 (comma_list (U ''#b,bad,#A'')) (roster ex_net)
   \<and> roster (handle no_render 1 (QUIT None) ex_net) = spec_gone 1 (roster ex_net)"
  using membership_refines [OF ex_net_ok, of 2 no_render "U ''#b,bad,#A''" None None]
    membership_refines [OF ex_net_ok, of 1 no_render _ _ _ None]
  by (simp add: is_registered_def ex_net_fields)

text \<open>
  C31: A connection that holds a nick, is not negotiating capabilities and
  sends USER is registered at once; and one that finished negotiating is registered by CAP END.
\<close>

theorem registration_completes:
  assumes "hm_get (n_clients n) who = Some c" "cl_nick c = Some nick" "\<not> cl_registered c"
  shows "(cl_negotiating c \<or> is_registered who (handle render who (USER user mode real) n))
    \<and> (cl_user c = None \<or> is_registered who (handle render who (CAP a CapEND b d) n))"
  using assms
  by (auto simp: handle_def srv_on_user_def srv_on_cap_def is_registered_def try_register_def map_simps Let_def)

theorem registration_completes_witness:
  "is_registered 1 (handle no_render 1 (USER (U ''ann'') [] []) (handle no_render 1 (NICK (U ''ann'')) ex_open))"
proof -
  let ?n = "handle no_render 1 (NICK (U ''ann'')) ex_open"
  have "hm_get (n_clients ?n) 1 = Some ((new_client 0)\<lparr>cl_nick := Some (U ''ann'')\<rparr>)"
    by (simp add: ex_open_fields ex_eval)
  from registration_completes [OF this] show ?thesis by (simp add: new_client_def)
qed

text \<open>
  C32: The operator's command to close a channel, when it is not refused, leaves
  no such room and takes exactly its members out of it.
\<close>

theorem closed_channel_gone:
  assumes "net_ok n" "execute (AcCloseChannel channel reason) n = (n', Inr said)"
  shows "hm_get (n_rooms n') (fold_name channel) = None
    \<and> roster n' = roster n - {fold_name channel} \<times> UNIV"
proof -
  obtain r where r: "hm_get (n_rooms n) (fold_name channel) = Some r"
    and n': "\<exists>why. n' = kick_all (fold_name channel) why (sort (r_members r)) n"
    using assms(2) by (auto simp: channel_key_def Let_def split: sum.splits if_splits)
  then obtain why where n': "n' = kick_all (fold_name channel) why (sort (r_members r)) n" by blast
  have empty: "roster n' = roster n - {fold_name channel} \<times> set (r_members r)"
    unfolding n' by (simp add: roster_kick_all)
  have "(fold_name channel, x) \<notin> roster n'" for x
    unfolding empty using r by (simp add: roster_def in_room_def)
  then have "\<not> in_room x (fold_name channel) n'" for x by (simp add: roster_def)
  moreover have "net_ok n'" using net_ok_execute [OF assms(1), of "AcCloseChannel channel reason"] assms(2) by simp
  ultimately have "hm_get (n_rooms n') (fold_name channel) = None"
    using net_okD(7) by (cases "hm_get (n_rooms n') (fold_name channel)")
      (fastforce simp: in_room_def rooms_ok_def room_ok_def)+
  moreover have "roster n - {fold_name channel} \<times> set (r_members r) = roster n - {fold_name channel} \<times> UNIV"
    using r by (auto simp: roster_def in_room_def)
  ultimately show ?thesis using empty by simp
qed

theorem closed_channel_gone_witness:
  "hm_get (n_rooms (fst (execute (AcCloseChannel (U ''#A'') None) ex_net))) (fold_name (U ''#A'')) = None"
proof -
  have "\<exists>n' t. execute (AcCloseChannel (U ''#A'') None) ex_net = (n', Inr t)"
    by (simp add: channel_key_def ex_net_fields fold_name_def to_ascii_lowercase_def ascii_lower_def Let_def)
  then obtain n' t where e: "execute (AcCloseChannel (U ''#A'') None) ex_net = (n', Inr t)" by blast
  from closed_channel_gone [OF ex_net_ok e] e show ?thesis by (simp del: execute.simps)
qed

end
