(* ===== verification/Spec2Isabelle.thy ===== *)
theory Spec2Isabelle
  imports Format Reply Session Sasl Offer Media Edits Contacts Network_Props
begin

text \<open>
  Verification of ddIRC, an IRC and XMPP client with a small IRC server, written in Rust.
\<close>

end
